theory Spec2Isabelle
  imports Main "HOL-Library.Sublist"
begin

section \<open>JavaScript strings\<close>

text \<open>
  A JavaScript string is modelled as a \<^typ>\<open>string\<close>, a list of 8-bit code units: the
  model covers strings whose code units lie in the Latin-1 range. The helpers below
  carry the names of the \<open>String.prototype\<close> methods that the plugin calls in
  \<open>src/index.ts\<close>.
\<close>

text \<open>\<open>s.startsWith(p)\<close>\<close>

fun startsWith :: "string \<Rightarrow> string \<Rightarrow> bool" where
  "startsWith s [] = True"
| "startsWith [] (p # ps) = False"
| "startsWith (c # cs) (p # ps) = (c = p \<and> startsWith cs ps)"

text \<open>\<open>s.endsWith(p)\<close>\<close>

definition endsWith :: "string \<Rightarrow> string \<Rightarrow> bool" where
  "endsWith s p = startsWith (rev s) (rev p)"

text \<open>\<open>s.slice(0, -1)\<close>: everything but the last code unit (\<open>""\<close> stays \<open>""\<close>).\<close>

definition slice_0_m1 :: "string \<Rightarrow> string" where
  "slice_0_m1 s = take (length s - 1) s"

text \<open>\<open>s.includes(sub)\<close>: \<open>sub\<close> occurs in \<open>s\<close> at some position.\<close>

fun includes_str :: "string \<Rightarrow> string \<Rightarrow> bool" where
  "includes_str [] sub = (sub = [])"
| "includes_str (c # cs) sub = (startsWith (c # cs) sub \<or> includes_str cs sub)"

text \<open>\<open>s.split(sep)\<close> for a separator of one code unit; \<open>"".split(",")\<close> is \<open>[""]\<close>.\<close>

fun split :: "string \<Rightarrow> char \<Rightarrow> string list" where
  "split [] sep = [[]]"
| "split (c # cs) sep =
     (if c = sep then [] # split cs sep
      else (case split cs sep of
              [] \<Rightarrow> [[c]]
            | w # ws \<Rightarrow> (c # w) # ws))"

text \<open>
  The white space and line terminators of ECMAScript that fit a code unit below 256:
  TAB, LF, VT, FF, CR, SP and NBSP.
\<close>

definition isWhiteSpace :: "char \<Rightarrow> bool" where
  "isWhiteSpace c = (c \<in> {CHR 0x09, CHR 0x0A, CHR 0x0B, CHR 0x0C, CHR 0x0D, CHR 0x20, CHR 0xA0})"

text \<open>\<open>s.trim()\<close>\<close>

definition trim :: "string \<Rightarrow> string" where
  "trim s = rev (dropWhile isWhiteSpace (rev (dropWhile isWhiteSpace s)))"

text \<open>\<open>s.replace(/\./g, '/')\<close>: every dot becomes a slash.\<close>

definition replace_dots :: "string \<Rightarrow> string" where
  "replace_dots s = map (\<lambda>c. if c = CHR ''.'' then CHR ''/'' else c) s"

text \<open>
  \<open>s.replace(pattern, replacement)\<close> with a string pattern replaces the first
  occurrence only, and expands the dollar patterns of the replacement
  (ECMAScript GetSubstitution): \<open>$$\<close> is a dollar sign, \<open>$&\<close> the matched text,
  \<open>$`\<close> the text preceding the match and \<open>$'\<close> the text following it. A string pattern has
  no capture groups, so every other dollar sign stays as it is.
\<close>

text \<open>The first occurrence of \<open>pat\<close> in \<open>s\<close>: the text preceding it and the text following it.\<close>

fun search :: "string \<Rightarrow> string \<Rightarrow> (string \<times> string) option" where
  "search [] pat = (if pat = [] then Some ([], []) else None)"
| "search (c # cs) pat =
     (if startsWith (c # cs) pat then Some ([], drop (length pat) (c # cs))
      else (case search cs pat of
              None \<Rightarrow> None
            | Some (preceding, following) \<Rightarrow> Some (c # preceding, following)))"

fun GetSubstitution :: "string \<Rightarrow> string \<Rightarrow> string \<Rightarrow> string \<Rightarrow> string" where
  "GetSubstitution matched preceding following [] = []"
| "GetSubstitution matched preceding following [c] = [c]"
| "GetSubstitution matched preceding following (c # d # rest) =
     (if c = CHR ''$'' \<and> d = CHR ''$'' then CHR ''$'' # GetSubstitution matched preceding following rest
      else if c = CHR ''$'' \<and> d = CHR ''&'' then matched @ GetSubstitution matched preceding following rest
      else if c = CHR ''$'' \<and> d = CHR 0x60 then preceding @ GetSubstitution matched preceding following rest
      else if c = CHR ''$'' \<and> d = CHR 0x27 then following @ GetSubstitution matched preceding following rest
      else c # GetSubstitution matched preceding following (d # rest))"

definition replace :: "string \<Rightarrow> string \<Rightarrow> string \<Rightarrow> string" where
  "replace s pat replacement =
     (case search s pat of
        None \<Rightarrow> s
      | Some (preceding, following) \<Rightarrow> preceding @ GetSubstitution pat preceding following replacement @ following)"

section \<open>JavaScript values\<close>

text \<open>
  The value of a telemetry update has the type \<open>any\<close>. The model has the values that
  JSON and plain plugin code produce: \<open>undefined\<close>, \<open>null\<close>, booleans, numbers,
  strings, arrays and plain objects (an object is the list of its own enumerable
  properties in enumeration order). \<open>JNum n\<close> stands for the number \<open>n\<close> when \<open>n\<close> is a
  safe integer (at most \<open>2^53 - 1\<close> in absolute value), where \<open>String(n)\<close> prints the
  decimal digits of \<open>n\<close>; a larger \<open>n\<close> stands for no value of the code, and fractions,
  \<open>NaN\<close> and the infinities are outside the model.
\<close>

datatype jsvalue =
    JUndefined
  | JNull
  | JBool bool
  | JNum int
  | JStr string
  | JArr "jsvalue list"
  | JObj "(string \<times> jsvalue) list"

text \<open>\<open>typeof value === 'object'\<close>: true of \<open>null\<close>, of arrays and of objects.\<close>

fun typeof_object :: "jsvalue \<Rightarrow> bool" where
  "typeof_object JNull = True"
| "typeof_object (JArr vs) = True"
| "typeof_object (JObj kvs) = True"
| "typeof_object v = False"

definition digit_char :: "nat \<Rightarrow> char" where
  "digit_char n = ''0123456789abcdef'' ! (n mod 16)"

fun dec_nat :: "nat \<Rightarrow> string" where
  "dec_nat n = (if n < 10 then [digit_char n] else dec_nat (n div 10) @ [digit_char (n mod 10)])"

declare dec_nat.simps [simp del]

definition Number_toString :: "int \<Rightarrow> string" where
  "Number_toString i = (if i < 0 then CHR ''-'' # dec_nat (nat (- i)) else dec_nat (nat i))"

text \<open>
  QuoteJSONString: the double quote, the backslash and the control characters are
  escaped, every other code unit stands for itself.
\<close>

definition json_escape :: "char \<Rightarrow> string" where
  "json_escape c =
     (if c = CHR 0x08 then [CHR 0x5C, CHR ''b'']
      else if c = CHR 0x09 then [CHR 0x5C, CHR ''t'']
      else if c = CHR 0x0A then [CHR 0x5C, CHR ''n'']
      else if c = CHR 0x0C then [CHR 0x5C, CHR ''f'']
      else if c = CHR 0x0D then [CHR 0x5C, CHR ''r'']
      else if c = CHR 0x22 then [CHR 0x5C, CHR 0x22]
      else if c = CHR 0x5C then [CHR 0x5C, CHR 0x5C]
      else if (of_char c :: nat) < 32
        then [CHR 0x5C, CHR ''u'', CHR ''0'', CHR ''0'',
              digit_char (of_char c div 16), digit_char (of_char c mod 16)]
      else [c])"

definition QuoteJSONString :: "string \<Rightarrow> string" where
  "QuoteJSONString s = [CHR 0x22] @ concat (map json_escape s) @ [CHR 0x22]"

fun join :: "string list \<Rightarrow> string" where
  "join [] = []"
| "join [x] = x"
| "join (x # y # ys) = x @ CHR '','' # join (y # ys)"

text \<open>
  \<open>JSON.stringify(value)\<close> as the plugin calls it, with no replacer and no indent:
  an \<open>undefined\<close> array element prints as \<open>null\<close>, an \<open>undefined\<close> property is left
  out. (At top level the plugin calls it only on values whose \<open>typeof\<close> is
  \<open>'object'\<close>, never on \<open>undefined\<close> itself.)
\<close>

fun JSON_stringify :: "jsvalue \<Rightarrow> string" where
  "JSON_stringify JUndefined = ''null''"
| "JSON_stringify JNull = ''null''"
| "JSON_stringify (JBool b) = (if b then ''true'' else ''false'')"
| "JSON_stringify (JNum n) = Number_toString n"
| "JSON_stringify (JStr s) = QuoteJSONString s"
| "JSON_stringify (JArr vs) = ''['' @ join (map JSON_stringify vs) @ '']''"
| "JSON_stringify (JObj kvs) =
     ''{'' @ join (map (\<lambda>kv. QuoteJSONString (fst kv) @ '':'' @ JSON_stringify (snd kv))
                    (filter (\<lambda>kv. snd kv \<noteq> JUndefined) kvs)) @ ''}''"

text \<open>\<open>String(value)\<close> for the values whose \<open>typeof\<close> is not \<open>'object'\<close>.\<close>

fun String_of :: "jsvalue \<Rightarrow> string" where
  "String_of JUndefined = ''undefined''"
| "String_of JNull = ''null''"
| "String_of (JBool b) = (if b then ''true'' else ''false'')"
| "String_of (JNum n) = Number_toString n"
| "String_of (JStr s) = s"
| "String_of (JArr vs) = join (map (\<lambda>v. if v = JUndefined \<or> v = JNull then [] else String_of v) vs)"
| "String_of (JObj kvs) = ''[object Object]''"

text \<open>
  The serialized form that both the change filter and the value-only payload use:
  \<open>typeof value === 'object' ? JSON.stringify(value) : String(value)\<close>.
\<close>

definition serialize :: "jsvalue \<Rightarrow> string" where
  "serialize v = (if typeof_object v then JSON_stringify v else String_of v)"

section \<open>Data model\<close>

text \<open>
  \<open>ExportRule\<close> of \<open>src/types.ts\<close>. An optional field (\<open>source?\<close>, \<open>topicTemplate?\<close>,
  \<open>excludeMMSI?\<close>) is an option, \<open>None\<close> for \<open>undefined\<close>. \<open>sendOnChange\<close> is declared
  \<open>boolean\<close>, but rules arrive as JSON from the configuration and the rule-update
  request, where the field may be missing: it is an option too. So is \<open>period\<close>:
  \<open>None\<close> is an absent or \<open>null\<close> period (the form of the web interface sends
  \<open>parseInt\<close> of its input, and a \<open>NaN\<close> arrives as \<open>null\<close>). Periods are whole
  milliseconds. The fields \<open>id\<close>, \<open>name\<close> and \<open>context\<close> are \<open>rule_id\<close>, \<open>rule_name\<close> and
  \<open>rule_context\<close> here; in the other records, too, a field whose name is taken carries
  a prefix (\<open>value_path\<close>, \<open>delta_context\<close>, \<open>dollar_source\<close> for \<open>$source\<close>,
  \<open>source_label\<close> for \<open>source?.label\<close>).
\<close>

datatype PayloadFormat = full | value_only

record ExportRule =
  rule_id :: string
  rule_name :: string
  rule_context :: string
  path :: string
  source :: "string option"
  enabled :: bool
  period :: "int option"
  qos :: nat
  retain :: bool
  payloadFormat :: PayloadFormat
  sendOnChange :: "bool option"
  topicTemplate :: "string option"
  excludeMMSI :: "string option"

text \<open>
  A delta as the telemetry source delivers it. The plugin guards every read
  (\<open>!delta.updates\<close>, \<open>!update.values\<close>, \<open>delta.context || 'vessels.self'\<close>,
  \<open>update.$source || update.source?.label\<close>), so each of these may be absent.
\<close>

record SignalKValue =
  value_path :: string
  "value" :: jsvalue

record SignalKUpdate =
  dollar_source :: "string option"
  source_label :: "string option"
  timestamp :: string
  "values" :: "SignalKValue list option"

record SignalKDelta =
  delta_context :: "string option"
  updates :: "SignalKUpdate list option"

record SignalKSubscriptionItem =
  item_path :: string
  item_period :: int

record SignalKSubscription =
  sub_context :: string
  subscribe :: "SignalKSubscriptionItem list"

record MQTTExportConfig =
  cfg_enabled :: bool
  mqttBroker :: string
  mqttClientId :: string
  mqttUsername :: string
  mqttPassword :: string
  topicPrefix :: string
  cfg_exportRules :: "ExportRule list"

text \<open>
  One call of \<open>mqttClient.publish(topic, payload, {qos, retain}, callback)\<close>. The
  payload of the full format is \<open>JSON.stringify(delta)\<close>, the serialization of the
  whole delta object as the host built it; the model keeps it as that delta.
\<close>

datatype Payload = JSON_stringify_delta SignalKDelta | Text string

record Publish =
  topic :: string
  payload :: Payload
  pub_qos :: nat
  pub_retain :: bool

text \<open>
  \<open>PluginState\<close>, the \<open>state\<close> object of the plugin.
  \<^item> \<open>mqttClient\<close>: \<open>None\<close> for \<open>null\<close>, otherwise the client's \<open>connected\<close> flag.
  \<^item> \<open>activeSubscriptions\<close>: a \<open>Map\<close>, kept as the list of its entries in insertion
    order.
  \<^item> \<open>lastSentValues\<close>: a \<open>Map\<close> from key to value; an entry may hold \<open>undefined\<close>.
  \<^item> \<open>currentConfig\<close>: the configuration object, which \<open>plugin.config\<close> refers to as
    well (\<open>plugin.start\<close> stores the same object in both).
  \<^item> \<open>unsubscribes\<close>: the subscriptions the telemetry source holds for the plugin.
    \<open>subscriptionmanager.subscribe\<close> registers the request with its delta handler,
    which closes over the rules of its context group, and leaves the means to cancel
    it in \<open>state.unsubscribes\<close>; the model keeps the request and those rules.
\<close>

record PluginState =
  mqttClient :: "bool option"
  exportRules :: "ExportRule list"
  activeSubscriptions :: "(string \<times> ExportRule list) list"
  lastSentValues :: "string \<Rightarrow> jsvalue option"
  currentConfig :: "MQTTExportConfig option"
  unsubscribes :: "(SignalKSubscription \<times> ExportRule list) list"

text \<open>Truthiness of an optional string: \<open>undefined\<close> and \<open>""\<close> are falsy.\<close>

fun truthy :: "string option \<Rightarrow> bool" where
  "truthy None = False"
| "truthy (Some s) = (s \<noteq> [])"

text \<open>\<open>x || d\<close> for an optional string \<open>x\<close>.\<close>

fun or_else :: "string option \<Rightarrow> string \<Rightarrow> string" where
  "or_else None d = d"
| "or_else (Some s) d = (if s = [] then d else s)"

section \<open>Change filter\<close>

record ValueChangeResult =
  hasChanged :: bool
  currentValue :: jsvalue
  previousValue :: jsvalue

definition valueKey :: "string \<Rightarrow> string \<Rightarrow> string" where
  "valueKey context p = context @ '':'' @ p"

text \<open>\<open>Map.prototype.get\<close>: a missing key reads as \<open>undefined\<close>.\<close>

definition Map_get :: "(string \<Rightarrow> jsvalue option) \<Rightarrow> string \<Rightarrow> jsvalue" where
  "Map_get m k = (case m k of None \<Rightarrow> JUndefined | Some v \<Rightarrow> v)"

definition checkValueChange ::
  "PluginState \<Rightarrow> string \<Rightarrow> string \<Rightarrow> jsvalue \<Rightarrow> PluginState \<times> ValueChangeResult" where
  "checkValueChange st context p v =
     (let lastValue = Map_get (lastSentValues st) (valueKey context p);
          currentValueString = serialize v
      in if lastValue \<noteq> JUndefined \<and> currentValueString = serialize lastValue
         then (st, \<lparr>hasChanged = False, currentValue = v, previousValue = lastValue\<rparr>)
         else (st\<lparr>lastSentValues := (lastSentValues st)(valueKey context p \<mapsto> v)\<rparr>,
               \<lparr>hasChanged = True, currentValue = v, previousValue = lastValue\<rparr>))"

section \<open>Topic rendering and dispatch\<close>

text \<open>The topic of \<open>publishToMQTT\<close>, from the prefix, the rule's template, context and path.\<close>

definition buildTopic :: "MQTTExportConfig option \<Rightarrow> ExportRule \<Rightarrow> string \<Rightarrow> string \<Rightarrow> string" where
  "buildTopic cfg rule context p =
     (let topic0 = (case cfg of
                      None \<Rightarrow> []
                    | Some c \<Rightarrow> if topicPrefix c \<noteq> [] then topicPrefix c @ ''/'' else [])
      in case topicTemplate rule of
           None \<Rightarrow> topic0 @ replace_dots (context @ ''/'' @ p)
         | Some t \<Rightarrow>
             if t \<noteq> []
             then topic0 @ replace_dots (replace (replace t ''{context}'' context) ''{path}'' p)
             else topic0 @ replace_dots (context @ ''/'' @ p))"

definition buildPayload :: "ExportRule \<Rightarrow> SignalKDelta \<Rightarrow> jsvalue \<Rightarrow> Payload" where
  "buildPayload rule delta v =
     (if payloadFormat rule = value_only then Text (serialize v)
      else JSON_stringify_delta delta)"

text \<open>
  \<open>publishToMQTT\<close>: the new state and the publish call it makes, if any. The caller has
  checked that the client is connected.
\<close>

definition publishToMQTT ::
  "PluginState \<Rightarrow> SignalKDelta \<Rightarrow> SignalKUpdate \<Rightarrow> SignalKValue \<Rightarrow> ExportRule
    \<Rightarrow> PluginState \<times> Publish option" where
  "publishToMQTT st delta update valueUpdate rule =
     (let context = or_else (delta_context delta) ''vessels.self'';
          p = value_path valueUpdate;
          v = value valueUpdate;
          send = \<lambda>st'. (st', Some \<lparr>topic = buildTopic (currentConfig st') rule context p,
                                    payload = buildPayload rule delta v,
                                    pub_qos = qos rule,
                                    pub_retain = retain rule\<rparr>)
      in if sendOnChange rule = Some True
         then (case checkValueChange st context p v of
                 (st', changeResult) \<Rightarrow>
                   if \<not> hasChanged changeResult then (st', None) else send st')
         else send st)"

section \<open>Match engine\<close>

definition pathMatch :: "ExportRule \<Rightarrow> SignalKValue \<Rightarrow> bool" where
  "pathMatch r valueUpdate =
     (if path r = ''*'' then True
      else if path r = value_path valueUpdate then True
      else if endsWith (path r) ''*''
        then startsWith (value_path valueUpdate) (slice_0_m1 (path r))
      else False)"

text \<open>\<open>update.$source || update.source?.label\<close>\<close>

definition sourceLabel :: "SignalKUpdate \<Rightarrow> string option" where
  "sourceLabel update =
     (if truthy (dollar_source update) then dollar_source update else source_label update)"

definition sourceMatch :: "ExportRule \<Rightarrow> SignalKUpdate \<Rightarrow> bool" where
  "sourceMatch r update =
     (case source r of
        None \<Rightarrow> True
      | Some s \<Rightarrow> s = [] \<or> trim s = [] \<or> Some s = sourceLabel update)"

text \<open>The exclusion check: true when the rule is rejected for an excluded identifier.\<close>

definition contextHasExcludedMMSI :: "ExportRule \<Rightarrow> SignalKDelta \<Rightarrow> bool" where
  "contextHasExcludedMMSI r delta =
     (case (excludeMMSI r, delta_context delta) of
        (Some e, Some context) \<Rightarrow>
          if e \<noteq> [] \<and> trim e \<noteq> [] \<and> context \<noteq> []
          then let excludedMMSIs = map trim (split e CHR '','')
               in list_ex (\<lambda>mmsi. includes_str context mmsi) excludedMMSIs
          else False
      | _ \<Rightarrow> False)"

text \<open>The callback of \<open>contextRules.find\<close>.\<close>

definition ruleMatches :: "SignalKDelta \<Rightarrow> SignalKUpdate \<Rightarrow> SignalKValue \<Rightarrow> ExportRule \<Rightarrow> bool" where
  "ruleMatches delta update valueUpdate r =
     (if \<not> enabled r then False
      else if \<not> pathMatch r valueUpdate then False
      else if \<not> sourceMatch r update then False
      else if contextHasExcludedMMSI r delta then False
      else True)"

text \<open>One pass of the inner \<open>forEach\<close>: a value of an update, against the context rules.\<close>

definition handleValue ::
  "ExportRule list \<Rightarrow> SignalKDelta \<Rightarrow> SignalKUpdate \<Rightarrow> PluginState \<times> Publish list
    \<Rightarrow> SignalKValue \<Rightarrow> PluginState \<times> Publish list" where
  "handleValue contextRules delta update acc valueUpdate =
     (case find (ruleMatches delta update valueUpdate) contextRules of
        None \<Rightarrow> acc
      | Some rule \<Rightarrow>
          (case publishToMQTT (fst acc) delta update valueUpdate rule of
             (st', None) \<Rightarrow> (st', snd acc)
           | (st', Some m) \<Rightarrow> (st', snd acc @ [m])))"

definition handleUpdate ::
  "ExportRule list \<Rightarrow> SignalKDelta \<Rightarrow> PluginState \<times> Publish list \<Rightarrow> SignalKUpdate
    \<Rightarrow> PluginState \<times> Publish list" where
  "handleUpdate contextRules delta acc update =
     (case values update of
        None \<Rightarrow> acc
      | Some vs \<Rightarrow> foldl (handleValue contextRules delta update) acc vs)"

text \<open>
  \<open>handleSignalKData\<close>: the new state and the publish calls made, in order.
\<close>

definition handleSignalKData ::
  "PluginState \<Rightarrow> SignalKDelta \<Rightarrow> ExportRule list \<Rightarrow> PluginState \<times> Publish list" where
  "handleSignalKData st delta contextRules =
     (case updates delta of
        None \<Rightarrow> (st, [])
      | Some us \<Rightarrow>
          if mqttClient st \<noteq> Some True then (st, [])
          else foldl (handleUpdate contextRules delta) (st, []) us)"

section \<open>Subscription planner\<close>

text \<open>
  \<open>contextGroups\<close> is a \<open>Map\<close> from context to the rules of that context, in insertion
  order. \<open>group_push\<close> is the body of the grouping loop: create the entry if the
  context is new, then push the rule onto it.
\<close>

fun Map_has :: "(string \<times> 'v) list \<Rightarrow> string \<Rightarrow> bool" where
  "Map_has [] k = False"
| "Map_has ((k', v) # m) k = (k' = k \<or> Map_has m k)"

fun Map_set :: "(string \<times> 'v) list \<Rightarrow> string \<Rightarrow> 'v \<Rightarrow> (string \<times> 'v) list" where
  "Map_set [] k v = [(k, v)]"
| "Map_set ((k', v') # m) k v = (if k' = k then (k, v) # m else (k', v') # Map_set m k v)"

fun Map_push :: "(string \<times> 'v list) list \<Rightarrow> string \<Rightarrow> 'v \<Rightarrow> (string \<times> 'v list) list" where
  "Map_push [] k x = []"
| "Map_push ((k', xs) # m) k x = (if k' = k then (k', xs @ [x]) # m else (k', xs) # Map_push m k x)"

text \<open>\<open>rule.context || 'vessels.self'\<close>\<close>

definition context_or_self :: "ExportRule \<Rightarrow> string" where
  "context_or_self rule = or_else (Some (rule_context rule)) ''vessels.self''"

definition group_push ::
  "(string \<times> ExportRule list) list \<Rightarrow> ExportRule \<Rightarrow> (string \<times> ExportRule list) list" where
  "group_push contextGroups rule =
     (let context = context_or_self rule;
          groups = (if \<not> Map_has contextGroups context then Map_set contextGroups context []
                    else contextGroups)
      in Map_push groups context rule)"

definition contextGroups_of :: "ExportRule list \<Rightarrow> (string \<times> ExportRule list) list" where
  "contextGroups_of rules = foldl group_push [] (filter enabled rules)"

text \<open>
  The subscription request of one context group: one item for each of its rules, with
  the period \<open>rule.period || 1000\<close>.
\<close>

definition subscription_of :: "string \<Rightarrow> ExportRule list \<Rightarrow> SignalKSubscription" where
  "subscription_of context rules =
     \<lparr>sub_context = context,
      subscribe = map (\<lambda>rule. \<lparr>item_path = path rule,
                                 item_period = (case period rule of
                                                  None \<Rightarrow> 1000
                                                | Some n \<Rightarrow> if n \<noteq> 0 then n else 1000)\<rparr>)
                      rules\<rparr>"

definition subscribe_group :: "PluginState \<Rightarrow> string \<times> ExportRule list \<Rightarrow> PluginState" where
  "subscribe_group st g =
     (case g of (context, rules) \<Rightarrow>
        st\<lparr>unsubscribes := unsubscribes st @ [(subscription_of context rules, rules)],
           activeSubscriptions := Map_set (activeSubscriptions st) context rules\<rparr>)"

definition updateSubscriptions :: "PluginState \<Rightarrow> PluginState" where
  "updateSubscriptions st =
     foldl subscribe_group
       (st\<lparr>unsubscribes := [], activeSubscriptions := []\<rparr>)
       (contextGroups_of (exportRules st))"

section \<open>Rule update\<close>

text \<open>
  \<open>router.post('/api/rules')\<close>. The body's \<open>rules\<close> is \<open>None\<close> when it is not an array.
  \<open>app.savePluginOptions\<close> belongs to the host: what it does is an input of the model.
  It calls back without an error, calls back with an error, or throws.
\<close>

datatype SaveOutcome = Saved | SaveError string | SaveThrows string

record ApiResponse =
  status :: nat
  success :: bool
  message :: "string option"
  error :: "string option"

definition post_rules ::
  "PluginState \<Rightarrow> ExportRule list option \<Rightarrow> SaveOutcome \<Rightarrow> PluginState \<times> ApiResponse" where
  "post_rules st body_rules outcome =
     (case body_rules of
        None \<Rightarrow> (st, \<lparr>status = 400, success = False, message = None,
                      error = Some ''Rules must be an array''\<rparr>)
      | Some newRules \<Rightarrow>
          (let st1 = st\<lparr>exportRules := newRules,
                        currentConfig :=
                          map_option (\<lambda>c. c\<lparr>cfg_exportRules := newRules\<rparr>) (currentConfig st)\<rparr>
           in case outcome of
                SaveError err \<Rightarrow>
                  (st1, \<lparr>status = 500, success = False, message = None,
                         error = Some ''Failed to save configuration''\<rparr>)
              | Saved \<Rightarrow>
                  (updateSubscriptions st1,
                   \<lparr>status = 200, success = True,
                    message = Some ''Export rules updated and saved'', error = None\<rparr>)
              | SaveThrows msg \<Rightarrow>
                  (st1, \<lparr>status = 500, success = False, message = None, error = Some msg\<rparr>)))"

section \<open>Topic rendering in the words of the specification\<close>

text \<open>
  The topic renderer in the spec's words (section 4.4), to compare \<open>buildTopic\<close> with.
  \<open>substitute_once\<close> is the literal single-occurrence replacement of a token by a value:
  the first occurrence of the token, if there is one, is replaced by the value as it
  stands. \<open>render\<close> substitutes \<open>{context}\<close> and then \<open>{path}\<close> in the template (the
  default scheme is \<open>context/path\<close>), replaces every dot by a slash, and prepends the
  prefix and a slash if the prefix is not empty.
\<close>

fun substitute_once :: "string \<Rightarrow> string \<Rightarrow> string \<Rightarrow> string" where
  "substitute_once token v [] = []"
| "substitute_once token v (c # cs) =
     (if prefix token (c # cs) then v @ drop (length token) (c # cs)
      else c # substitute_once token v cs)"

definition render :: "string \<Rightarrow> string option \<Rightarrow> string \<Rightarrow> string \<Rightarrow> string" where
  "render pre template context p =
     (if pre = [] then [] else pre @ ''/'') @
     replace_dots
       (case template of
          None \<Rightarrow> context @ ''/'' @ p
        | Some t \<Rightarrow>
            if t = [] then context @ ''/'' @ p
            else substitute_once ''{path}'' p (substitute_once ''{context}'' context t))"

text \<open>
  The replacement patterns that \<open>String.prototype.replace\<close> expands for a string
  pattern are a dollar sign followed by \<open>$\<close>, \<open>&\<close>, a backtick or an apostrophe. A value
  is free of them when no dollar sign in it is followed by one of these; any other
  dollar sign (as in \<open>a$1b$\<close>) is allowed.
\<close>

fun pattern_free :: "string \<Rightarrow> bool" where
  "pattern_free [] = True"
| "pattern_free [c] = True"
| "pattern_free (c # d # rest) =
     (\<not> (c = CHR ''$'' \<and> (d = CHR ''$'' \<or> d = CHR ''&'' \<or> d = CHR 0x60 \<or> d = CHR 0x27))
      \<and> pattern_free (d # rest))"

text \<open>The configured prefix; none when there is no configuration.\<close>

definition prefix_of :: "MQTTExportConfig option \<Rightarrow> string" where
  "prefix_of cfg = (case cfg of None \<Rightarrow> [] | Some c \<Rightarrow> topicPrefix c)"

section \<open>Counting the values of a delta\<close>

text \<open>The number of values an update carries.\<close>

definition value_count :: "SignalKUpdate \<Rightarrow> nat" where
  "value_count u = (case values u of None \<Rightarrow> 0 | Some vs \<Rightarrow> length vs)"

section \<open>Example data\<close>

text \<open>
  The first default rule of the plugin (\<open>getDefaultExportRules\<close>), a value of the
  position path, an update from the source \<open>gps0\<close> and a delta of the own vessel.
\<close>

definition rule0 :: ExportRule where
  "rule0 = \<lparr>rule_id = ''all-navigation'', rule_name = ''All Navigation Data'',
     rule_context = ''vessels.self'', path = ''navigation*'', source = Some [],
     enabled = True, period = Some 1000, qos = 0, retain = False, payloadFormat = full,
     sendOnChange = Some True, topicTemplate = None, excludeMMSI = None\<rparr>"

definition value0 :: SignalKValue where
  "value0 = \<lparr>value_path = ''navigation.position'', value = JNum 42\<rparr>"

definition update0 :: SignalKUpdate where
  "update0 = \<lparr>dollar_source = Some ''gps0'', source_label = Some ''gps0'',
     timestamp = ''2024-01-01T00:00:00Z'', values = Some [value0]\<rparr>"

definition delta0 :: SignalKDelta where
  "delta0 = \<lparr>delta_context = Some ''vessels.self'', updates = Some [update0]\<rparr>"

text \<open>The same delta in the context of an AIS target.\<close>

definition deltaAIS :: SignalKDelta where
  "deltaAIS = \<lparr>delta_context = Some ''vessels.urn:mrn:imo:mmsi:12345'', updates = Some [update0]\<rparr>"

text \<open>A second rule that matches every path, with settings of its own.\<close>

definition ruleAll :: ExportRule where
  "ruleAll = \<lparr>rule_id = ''everything'', rule_name = ''Everything'',
     rule_context = ''vessels.self'', path = ''*'', source = None,
     enabled = True, period = Some 5000, qos = 1, retain = True, payloadFormat = value_only,
     sendOnChange = Some False, topicTemplate = Some ''m/{context}/{path}'', excludeMMSI = None\<rparr>"

text \<open>A running plugin with a connected client, no prefix and nothing sent so far.\<close>

definition config0 :: MQTTExportConfig where
  "config0 = \<lparr>cfg_enabled = True, mqttBroker = ''mqtt://localhost:1883'',
     mqttClientId = ''signalk-mqtt-export'', mqttUsername = [], mqttPassword = [],
     topicPrefix = [], cfg_exportRules = [rule0, ruleAll]\<rparr>"

definition state0 :: PluginState where
  "state0 = \<lparr>mqttClient = Some True, exportRules = [rule0, ruleAll],
     activeSubscriptions = [], lastSentValues = Map.empty,
     currentConfig = Some config0, unsubscribes = []\<rparr>"

text \<open>The running plugin of the examples, with its subscriptions in place.\<close>

definition stateRunning :: PluginState where
  "stateRunning = updateSubscriptions state0"

text \<open>The same value with \<open>undefined\<close> in it, and the plugin after it has sent the string
  \<open>"undefined"\<close> for that key.\<close>

definition valueU :: SignalKValue where
  "valueU = value0\<lparr>value := JUndefined\<rparr>"

definition stateU :: PluginState where
  "stateU = fst (publishToMQTT state0 delta0 update0 (value0\<lparr>value := JStr ''undefined''\<rparr>) rule0)"

section \<open>Strings: the helpers meet their descriptions\<close>

lemma startsWith_prefix: "startsWith s p = prefix p s"
  by (induction s p rule: startsWith.induct) auto

lemma startsWith_append: "startsWith s p \<longleftrightarrow> (\<exists>rest. s = p @ rest)"
  by (simp add: startsWith_prefix prefix_def)

lemma endsWith_append: "endsWith s p \<longleftrightarrow> (\<exists>front. s = front @ p)"
proof -
  have "endsWith s p \<longleftrightarrow> suffix p s"
    by (simp add: endsWith_def startsWith_prefix suffix_to_prefix)
  then show ?thesis by (simp add: suffix_def)
qed

lemma slice_0_m1_snoc: "slice_0_m1 (front @ [c]) = front"
  by (simp add: slice_0_m1_def)

lemma includes_str_append: "includes_str s sub \<longleftrightarrow> (\<exists>a b. s = a @ sub @ b)"
proof (induction s)
  case Nil
  then show ?case by simp
next
  case (Cons c cs)
  show ?case
  proof
    assume "includes_str (c # cs) sub"
    then consider "startsWith (c # cs) sub" | "includes_str cs sub" by auto
    then show "\<exists>a b. c # cs = a @ sub @ b"
    proof cases
      case 1
      then obtain rest where "c # cs = sub @ rest" by (auto simp: startsWith_append)
      then have "c # cs = [] @ sub @ rest" by simp
      then show ?thesis by blast
    next
      case 2
      then obtain a b where "cs = a @ sub @ b" using Cons.IH by blast
      then have "c # cs = (c # a) @ sub @ b" by simp
      then show ?thesis by blast
    qed
  next
    assume "\<exists>a b. c # cs = a @ sub @ b"
    then obtain a b where ab: "c # cs = a @ sub @ b" by blast
    show "includes_str (c # cs) sub"
    proof (cases a)
      case Nil
      with ab have "startsWith (c # cs) sub" by (auto simp: startsWith_append)
      then show ?thesis by simp
    next
      case (Cons x a')
      with ab have "cs = a' @ sub @ b" by simp
      then have "includes_str cs sub" using Cons.IH by blast
      then show ?thesis by simp
    qed
  qed
qed

text \<open>
  \<open>split\<close> cuts at every separator and nowhere else; \<open>trim\<close> removes white space at both
  ends and nothing else; \<open>search\<close> finds the first occurrence.
\<close>

lemma split_not_Nil: "split s sep \<noteq> []"
  by (induction s) (auto split: list.splits)

lemma split_no_separator: "w \<in> set (split s sep) \<Longrightarrow> sep \<notin> set w"
proof (induction s arbitrary: w)
  case Nil
  then show ?case by simp
next
  case (Cons c cs)
  then show ?case
    by (cases "split cs sep") (auto split: if_splits)
qed

lemma join_Cons: "ws \<noteq> [] \<Longrightarrow> join (w # ws) = w @ CHR '','' # join ws"
  by (cases ws) auto

lemma join_split: "join (split s CHR '','') = s"
proof (induction s)
  case Nil
  then show ?case by simp
next
  case (Cons c cs)
  show ?case
  proof (cases "c = CHR '',''")
    case True
    then show ?thesis
      using Cons.IH by (simp add: join_Cons split_not_Nil)
  next
    case False
    obtain w ws where sp: "split cs CHR '','' = w # ws"
      using split_not_Nil [of cs "CHR '',''"] by (cases "split cs CHR '',''") auto
    have "join ((c # w) # ws) = c # join (w # ws)"
      by (cases ws) auto
    with False sp Cons.IH show ?thesis by simp
  qed
qed

lemma trim_decompose:
  "\<exists>l t. s = l @ trim s @ t \<and> list_all isWhiteSpace l \<and> list_all isWhiteSpace t"
proof -
  let ?l = "takeWhile isWhiteSpace s"
  let ?m = "dropWhile isWhiteSpace s"
  let ?t = "rev (takeWhile isWhiteSpace (rev ?m))"
  have "?m = rev (dropWhile isWhiteSpace (rev ?m)) @ ?t"
    by (metis rev_append rev_rev_ident takeWhile_dropWhile_id)
  then have m: "?m = trim s @ ?t"
    by (simp add: trim_def)
  have "s = ?l @ ?m" by simp
  with m have "s = ?l @ trim s @ ?t" by simp
  moreover have "list_all isWhiteSpace ?l"
    by (simp add: list_all_iff) (meson set_takeWhileD)
  moreover have "list_all isWhiteSpace ?t"
    by (simp add: list_all_iff) (meson set_takeWhileD)
  ultimately show ?thesis by blast
qed

lemma trim_ends:
  assumes "trim s \<noteq> []"
  shows "\<not> isWhiteSpace (hd (trim s)) \<and> \<not> isWhiteSpace (last (trim s))"
proof -
  let ?m = "dropWhile isWhiteSpace s"
  let ?r = "dropWhile isWhiteSpace (rev ?m)"
  have r: "?r \<noteq> []" using assms by (simp add: trim_def)
  then have hr: "\<not> isWhiteSpace (hd ?r)" by (rule hd_dropWhile)
  have last: "last (trim s) = hd ?r"
    using r by (simp add: trim_def last_rev)
  have "?m \<noteq> []"
  proof
    assume e: "?m = []"
    have "dropWhile isWhiteSpace (rev []) = ([] :: string)" by simp
    with r show False by (simp only: e)
  qed
  then have hm: "\<not> isWhiteSpace (hd ?m)" by (rule hd_dropWhile)
  obtain t where "rev ?m = t @ ?r"
    by (metis takeWhile_dropWhile_id)
  then have "?m = rev ?r @ rev t" by (metis rev_append rev_rev_ident)
  then have "hd ?m = hd (rev ?r)" using r by (metis hd_append2 rev_is_Nil_conv)
  with hm have "\<not> isWhiteSpace (hd (trim s))" by (simp add: trim_def)
  with hr last show ?thesis by simp
qed

lemma search_None: "search s pat = None \<longleftrightarrow> \<not> includes_str s pat"
  by (induction s) (auto split: option.splits)

lemma search_Some:
  assumes "search s pat = Some (a, b)"
  shows "s = a @ pat @ b"
  using assms
proof (induction s arbitrary: a)
  case Nil
  then show ?case by (simp split: if_splits)
next
  case (Cons c cs)
  show ?case
  proof (cases "startsWith (c # cs) pat")
    case True
    then obtain rest where r: "c # cs = pat @ rest" by (auto simp: startsWith_append)
    have ab: "a = []" "b = drop (length pat) (c # cs)"
      using True Cons.prems by auto
    have "drop (length pat) (c # cs) = rest"
      by (simp only: r) simp
    with ab r show ?thesis by simp
  next
    case False
    with Cons.prems obtain a' where "search cs pat = Some (a', b)" "a = c # a'"
      by (auto split: option.splits)
    with Cons.IH show ?thesis by simp
  qed
qed

lemma search_first:
  assumes "search s pat = Some (a, b)" "pat \<noteq> []"
  shows "\<not> includes_str (a @ butlast pat) pat"
  using assms(1)
proof (induction s arbitrary: a)
  case Nil
  with assms(2) show ?case by simp
next
  case (Cons c cs)
  show ?case
  proof (cases "startsWith (c # cs) pat")
    case True
    with Cons.prems have "a = []" by simp
    moreover have "\<not> includes_str (butlast pat) pat"
    proof
      assume "includes_str (butlast pat) pat"
      then obtain x y where "butlast pat = x @ pat @ y" by (auto simp: includes_str_append)
      then have "length (butlast pat) = length x + length pat + length y" by simp
      then have "length pat - 1 = length x + length pat + length y" by simp
      moreover have "1 \<le> length pat" using assms(2) by (cases pat) auto
      ultimately show False by arith
    qed
    ultimately show ?thesis by simp
  next
    case False
    with Cons.prems obtain a' where a': "search cs pat = Some (a', b)" "a = c # a'"
      by (auto split: option.splits)
    have s: "c # cs = (c # a') @ pat @ b"
      using Cons.prems a' search_Some by blast
    have "\<not> startsWith ((c # a') @ butlast pat) pat"
    proof
      assume "startsWith ((c # a') @ butlast pat) pat"
      then obtain rest where "(c # a') @ butlast pat = pat @ rest" by (auto simp: startsWith_append)
      then have "(c # a') @ butlast pat @ [last pat] @ b = pat @ rest @ [last pat] @ b" by simp
      then have "c # cs = pat @ rest @ [last pat] @ b"
        using s assms(2) by simp
      then have "startsWith (c # cs) pat" unfolding startsWith_append by blast
      with False show False by simp
    qed
    with Cons.IH [OF a'(1)] a'(2) show ?thesis by simp
  qed
qed

section \<open>Match engine: the checks\<close>

lemma pathMatch_iff:
  "pathMatch r vu \<longleftrightarrow>
     path r = value_path vu \<or> path r = ''*'' \<or>
     (\<exists>front rest. path r = front @ ''*'' \<and> value_path vu = front @ rest)"
proof -
  have star: "endsWith (path r) ''*'' \<and> startsWith (value_path vu) (slice_0_m1 (path r)) \<longleftrightarrow>
      (\<exists>front rest. path r = front @ ''*'' \<and> value_path vu = front @ rest)"
    by (auto simp: endsWith_append startsWith_append slice_0_m1_snoc)
  show ?thesis
    unfolding pathMatch_def using star by auto
qed

text \<open>
  C5. The path check of the match engine passes exactly when the rule path equals the
  update path, or the rule path is the universal wildcard \<open>*\<close>, or the rule path ends in
  the wildcard marker and the update path starts with the text before the marker. In
  particular \<open>navigation*\<close> matches \<open>navigation.position\<close> and \<open>navigation\<close>, and does
  not match \<open>electrical.navigation\<close>.
\<close>

theorem C5_path_match:
  "(pathMatch r vu \<longleftrightarrow>
      path r = value_path vu \<or> path r = ''*'' \<or>
      (\<exists>front rest. path r = front @ ''*'' \<and> value_path vu = front @ rest))
   \<and> pathMatch (r\<lparr>path := ''navigation*''\<rparr>) (vu\<lparr>value_path := ''navigation.position''\<rparr>)
   \<and> pathMatch (r\<lparr>path := ''navigation*''\<rparr>) (vu\<lparr>value_path := ''navigation''\<rparr>)
   \<and> \<not> pathMatch (r\<lparr>path := ''navigation*''\<rparr>) (vu\<lparr>value_path := ''electrical.navigation''\<rparr>)"
proof (intro conjI)
  show "pathMatch r vu \<longleftrightarrow>
      path r = value_path vu \<or> path r = ''*'' \<or>
      (\<exists>front rest. path r = front @ ''*'' \<and> value_path vu = front @ rest)"
    by (rule pathMatch_iff)
  show "pathMatch (r\<lparr>path := ''navigation*''\<rparr>) (vu\<lparr>value_path := ''navigation.position''\<rparr>)"
    by (simp add: pathMatch_def endsWith_def slice_0_m1_def)
  show "pathMatch (r\<lparr>path := ''navigation*''\<rparr>) (vu\<lparr>value_path := ''navigation''\<rparr>)"
    by (simp add: pathMatch_def endsWith_def slice_0_m1_def)
  show "\<not> pathMatch (r\<lparr>path := ''navigation*''\<rparr>) (vu\<lparr>value_path := ''electrical.navigation''\<rparr>)"
    by (simp add: pathMatch_def endsWith_def slice_0_m1_def)
qed

lemma ruleMatches_iff:
  "ruleMatches d u vu r \<longleftrightarrow>
     enabled r \<and> pathMatch r vu \<and> sourceMatch r u \<and> \<not> contextHasExcludedMMSI r d"
  by (simp add: ruleMatches_def)

lemma trim_Nil: "trim [] = []"
  by (simp add: trim_def)

text \<open>
  C7. The origin label of an update is \<open>update.$source || update.source?.label\<close>. For a
  rule whose source is not blank, the source check passes exactly when the rule's
  source equals that label, code unit for code unit (so case-sensitively); a rule whose
  source is absent, empty or blank passes for every update. A rule with source
  \<open>pypilot\<close> never matches an update whose origin label is \<open>gps0\<close>.
\<close>

theorem C7_source_match:
  "(\<forall>s. source r = Some s \<and> trim s \<noteq> [] \<longrightarrow> (sourceMatch r u \<longleftrightarrow> sourceLabel u = Some s))
   \<and> (source r = None \<or> (\<exists>s. source r = Some s \<and> trim s = []) \<longrightarrow> sourceMatch r u)
   \<and> (source r = Some ''pypilot'' \<and> sourceLabel u = Some ''gps0''
        \<longrightarrow> \<not> sourceMatch r u \<and> \<not> ruleMatches d u vu r)"
proof (intro conjI allI impI)
  fix s
  assume a: "source r = Some s \<and> trim s \<noteq> []"
  then have "s \<noteq> []" using trim_Nil by auto
  with a show "sourceMatch r u \<longleftrightarrow> sourceLabel u = Some s"
    by (auto simp: sourceMatch_def)
next
  assume "source r = None \<or> (\<exists>s. source r = Some s \<and> trim s = [])"
  then show "sourceMatch r u"
    by (auto simp: sourceMatch_def)
next
  assume a: "source r = Some ''pypilot'' \<and> sourceLabel u = Some ''gps0''"
  have "trim ''pypilot'' \<noteq> []"
    by (simp add: trim_def isWhiteSpace_def)
  with a show "\<not> sourceMatch r u"
    by (simp add: sourceMatch_def)
  then show "\<not> ruleMatches d u vu r"
    by (simp add: ruleMatches_iff)
qed

text \<open>
  The source check at concrete rules and updates: a differing label, an equal label, a
  label that differs in case only, a blank source and an absent source.
\<close>

theorem C7_source_match_witness:
  "source (rule0\<lparr>source := Some ''pypilot''\<rparr>) = Some ''pypilot''
   \<and> trim ''pypilot'' \<noteq> []
   \<and> sourceLabel update0 = Some ''gps0''
   \<and> \<not> sourceMatch (rule0\<lparr>source := Some ''pypilot''\<rparr>) update0
   \<and> \<not> ruleMatches delta0 update0 value0 (rule0\<lparr>source := Some ''pypilot''\<rparr>)
   \<and> sourceLabel (update0\<lparr>dollar_source := None, source_label := Some ''pypilot''\<rparr>) = Some ''pypilot''
   \<and> sourceMatch (rule0\<lparr>source := Some ''pypilot''\<rparr>)
        (update0\<lparr>dollar_source := None, source_label := Some ''pypilot''\<rparr>)
   \<and> sourceLabel (update0\<lparr>dollar_source := Some ''Pypilot''\<rparr>) = Some ''Pypilot''
   \<and> \<not> sourceMatch (rule0\<lparr>source := Some ''pypilot''\<rparr>) (update0\<lparr>dollar_source := Some ''Pypilot''\<rparr>)
   \<and> trim ''  '' = []
   \<and> sourceMatch (rule0\<lparr>source := Some ''  ''\<rparr>) update0
   \<and> sourceMatch (rule0\<lparr>source := None\<rparr>) update0"
proof -
  have t1: "trim ''pypilot'' \<noteq> []" and t2: "trim ''  '' = []"
    by (simp_all add: trim_def isWhiteSpace_def)
  have l1: "sourceLabel update0 = Some ''gps0''"
    and l2: "sourceLabel (update0\<lparr>dollar_source := None, source_label := Some ''pypilot''\<rparr>) = Some ''pypilot''"
    and l3: "sourceLabel (update0\<lparr>dollar_source := Some ''Pypilot''\<rparr>) = Some ''Pypilot''"
    by (simp_all add: sourceLabel_def update0_def)
  note a = C7_source_match [of "rule0\<lparr>source := Some ''pypilot''\<rparr>" update0 delta0 value0]
  note b = C7_source_match [of "rule0\<lparr>source := Some ''pypilot''\<rparr>"
      "update0\<lparr>dollar_source := None, source_label := Some ''pypilot''\<rparr>" delta0 value0]
  note c = C7_source_match [of "rule0\<lparr>source := Some ''pypilot''\<rparr>"
      "update0\<lparr>dollar_source := Some ''Pypilot''\<rparr>" delta0 value0]
  note d = C7_source_match [of "rule0\<lparr>source := Some ''  ''\<rparr>" update0 delta0 value0]
  note e = C7_source_match [of "rule0\<lparr>source := None\<rparr>" update0 delta0 value0]
  show ?thesis
    using a b c d e t1 t2 l1 l2 l3 by simp
qed

section \<open>Match engine: exclusion\<close>

lemma contextHasExcludedMMSI_iff:
  assumes "excludeMMSI r = Some e" "trim e \<noteq> []" "delta_context d = Some c" "c \<noteq> []"
  shows "contextHasExcludedMMSI r d \<longleftrightarrow>
           (\<exists>m \<in> set (map trim (split e CHR '','')). \<exists>a b. c = a @ m @ b)"
proof -
  from assms(2) have "e \<noteq> []" using trim_Nil by auto
  with assms show ?thesis
    by (simp add: contextHasExcludedMMSI_def list_ex_iff includes_str_append)
qed

lemma contextHasExcludedMMSI_skipped:
  assumes "excludeMMSI r = None \<or> (\<exists>e. excludeMMSI r = Some e \<and> trim e = [])
             \<or> delta_context d = None \<or> delta_context d = Some []"
  shows "\<not> contextHasExcludedMMSI r d"
  using assms by (auto simp: contextHasExcludedMMSI_def split: option.splits)

lemma trim_eq_Nil_iff: "trim s = [] \<longleftrightarrow> (\<forall>x\<in>set s. isWhiteSpace x)"
proof
  assume "\<forall>x\<in>set s. isWhiteSpace x"
  then have "dropWhile isWhiteSpace s = []" by simp
  then show "trim s = []" by (simp only: trim_def) simp
next
  assume t: "trim s = []"
  show "\<forall>x\<in>set s. isWhiteSpace x"
  proof (rule ccontr)
    assume "\<not> (\<forall>x\<in>set s. isWhiteSpace x)"
    then have m: "dropWhile isWhiteSpace s \<noteq> []" by auto
    then have "\<not> isWhiteSpace (hd (dropWhile isWhiteSpace s))" by (rule hd_dropWhile)
    moreover have "hd (dropWhile isWhiteSpace s) \<in> set (rev (dropWhile isWhiteSpace s))"
      using m by simp
    ultimately have "dropWhile isWhiteSpace (rev (dropWhile isWhiteSpace s)) \<noteq> []"
      by (metis dropWhile_eq_Nil_conv)
    with t show False by (simp add: trim_def)
  qed
qed

lemma split_subset: "w \<in> set (split s sep) \<Longrightarrow> set w \<subseteq> set s"
proof (induction s arbitrary: w)
  case Nil
  then show ?case by simp
next
  case (Cons c cs)
  show ?case
  proof (cases "c = sep")
    case True
    with Cons.prems have "w = [] \<or> w \<in> set (split cs sep)" by simp
    with Cons.IH show ?thesis by auto
  next
    case False
    obtain v vs where sp: "split cs sep = v # vs"
      using split_not_Nil [of cs sep] by (cases "split cs sep") auto
    with False Cons.prems have "w = c # v \<or> w \<in> set vs" by simp
    moreover have "set v \<subseteq> set cs" using Cons.IH [of v] sp by simp
    moreover have "set w' \<subseteq> set cs" if "w' \<in> set vs" for w'
      using Cons.IH [of w'] sp that by simp
    ultimately show ?thesis by auto
  qed
qed

lemma entry_not_blank:
  assumes "m \<in> set (map trim (split e sep))" "m \<noteq> []"
  shows "trim e \<noteq> []"
proof -
  from assms obtain w where w: "w \<in> set (split e sep)" "trim w \<noteq> []" by auto
  then obtain x where "x \<in> set w" "\<not> isWhiteSpace x"
    by (auto simp: trim_eq_Nil_iff)
  with w(1) have "x \<in> set e" using split_subset by blast
  with \<open>\<not> isWhiteSpace x\<close> show ?thesis
    by (auto simp: trim_eq_Nil_iff)
qed

lemma excluded_entry_rejects:
  assumes "excludeMMSI r = Some e" "m \<in> set (map trim (split e CHR '',''))" "m \<noteq> []"
    "delta_context d = Some (a @ m @ b)"
  shows "contextHasExcludedMMSI r d"
proof -
  have "trim e \<noteq> []" using assms(2,3) by (rule entry_not_blank)
  moreover have "a @ m @ b \<noteq> []" using assms(3) by simp
  ultimately show ?thesis
    using assms contextHasExcludedMMSI_iff [of r e d "a @ m @ b"] by blast
qed

text \<open>
  C6, as the code has it. A rule with an exclusion list never matches an update whose
  context identifier contains, as a substring, a non-empty comma-separated, trimmed
  entry of the list, whatever the path and source checks say. In full: the exclusion
  check runs only when the list is not blank (something is left after trimming) and the
  update carries a non-empty context identifier; then the rule is rejected exactly when
  the identifier contains one of the trimmed entries, an empty entry included. When the
  list is absent, empty or blank, or the context identifier is absent or empty, the
  check is skipped and rejects nothing. A rule with the exclusion list \<open>12345\<close> never
  matches an update whose context identifier contains \<open>12345\<close>.
\<close>

theorem C6_exclusion:
  "(excludeMMSI r = Some e \<and> m \<in> set (map trim (split e CHR '','')) \<and> m \<noteq> []
      \<and> delta_context d = Some (a @ m @ b) \<longrightarrow> \<not> ruleMatches d u vu r)
   \<and> (excludeMMSI r = Some e \<and> trim e \<noteq> [] \<and> delta_context d = Some c \<and> c \<noteq> [] \<longrightarrow>
      (contextHasExcludedMMSI r d \<longleftrightarrow>
         (\<exists>m \<in> set (map trim (split e CHR '','')). \<exists>a b. c = a @ m @ b))
      \<and> (contextHasExcludedMMSI r d \<longrightarrow> \<not> ruleMatches d u vu r))
   \<and> (excludeMMSI r = None \<or> (\<exists>e. excludeMMSI r = Some e \<and> trim e = [])
          \<or> delta_context d = None \<or> delta_context d = Some []
        \<longrightarrow> \<not> contextHasExcludedMMSI r d)
   \<and> (excludeMMSI r = Some ''12345'' \<and> delta_context d = Some (a @ ''12345'' @ b)
        \<longrightarrow> \<not> ruleMatches d u vu r)"
proof (intro conjI impI)
  assume "excludeMMSI r = Some e \<and> m \<in> set (map trim (split e CHR '','')) \<and> m \<noteq> []
      \<and> delta_context d = Some (a @ m @ b)"
  then have "contextHasExcludedMMSI r d"
    using excluded_entry_rejects by blast
  then show "\<not> ruleMatches d u vu r"
    by (simp add: ruleMatches_iff)
next
  assume h: "excludeMMSI r = Some e \<and> trim e \<noteq> [] \<and> delta_context d = Some c \<and> c \<noteq> []"
  then show "contextHasExcludedMMSI r d \<longleftrightarrow>
         (\<exists>m \<in> set (map trim (split e CHR '','')). \<exists>a b. c = a @ m @ b)"
    using contextHasExcludedMMSI_iff by blast
next
  assume "contextHasExcludedMMSI r d"
  then show "\<not> ruleMatches d u vu r"
    by (simp add: ruleMatches_iff)
next
  assume "excludeMMSI r = None \<or> (\<exists>e. excludeMMSI r = Some e \<and> trim e = [])
          \<or> delta_context d = None \<or> delta_context d = Some []"
  then show "\<not> contextHasExcludedMMSI r d"
    by (rule contextHasExcludedMMSI_skipped)
next
  assume h: "excludeMMSI r = Some ''12345'' \<and> delta_context d = Some (a @ ''12345'' @ b)"
  have t: "trim ''12345'' \<noteq> []"
    by (simp add: trim_def isWhiteSpace_def)
  have s: "map trim (split ''12345'' CHR '','') = [''12345'']"
    by (simp add: trim_def isWhiteSpace_def)
  have "contextHasExcludedMMSI r d"
    using h t s contextHasExcludedMMSI_iff [of r "''12345''" d "a @ ''12345'' @ b"]
    by auto
  then show "\<not> ruleMatches d u vu r"
    by (simp add: ruleMatches_iff)
qed

text \<open>
  C6 as stated fails for an empty entry where a guard skips the check. The list \<open>" "\<close>
  is a non-empty string whose only trimmed entry is the empty string, which every
  identifier contains: the rule still matches. And an update with the empty context
  identifier is matched by a rule whose list \<open>"12345,"\<close> has the empty string as its
  second entry.
\<close>

theorem C6_exclusion_counterexample:
  "excludeMMSI (rule0\<lparr>excludeMMSI := Some '' ''\<rparr>) = Some '' ''
   \<and> map trim (split '' '' CHR '','') = [[]]
   \<and> includes_str ''vessels.self'' []
   \<and> ruleMatches delta0 update0 value0 (rule0\<lparr>excludeMMSI := Some '' ''\<rparr>)
   \<and> map trim (split ''12345,'' CHR '','') = [''12345'', []]
   \<and> includes_str [] []
   \<and> ruleMatches (delta0\<lparr>delta_context := Some []\<rparr>) update0 value0
        (rule0\<lparr>excludeMMSI := Some ''12345,''\<rparr>)"
  by (simp add: rule0_def delta0_def update0_def value0_def ruleMatches_def pathMatch_def
      sourceMatch_def contextHasExcludedMMSI_def endsWith_def slice_0_m1_def trim_def
      isWhiteSpace_def)

text \<open>
  The exclusion check at an AIS context: a list with two entries that names the vessel,
  a blank list, the list \<open>12345\<close>, and a rule with no list.
\<close>

theorem C6_exclusion_witness:
  "excludeMMSI (rule0\<lparr>excludeMMSI := Some ''999, 12345''\<rparr>) = Some ''999, 12345''
   \<and> trim ''999, 12345'' \<noteq> []
   \<and> delta_context deltaAIS = Some ''vessels.urn:mrn:imo:mmsi:12345''
   \<and> map trim (split ''999, 12345'' CHR '','') = [''999'', ''12345'']
   \<and> contextHasExcludedMMSI (rule0\<lparr>excludeMMSI := Some ''999, 12345''\<rparr>) deltaAIS
   \<and> \<not> ruleMatches deltaAIS update0 value0 (rule0\<lparr>excludeMMSI := Some ''999, 12345''\<rparr>)
   \<and> \<not> contextHasExcludedMMSI (rule0\<lparr>excludeMMSI := Some '' ''\<rparr>) deltaAIS
   \<and> \<not> ruleMatches deltaAIS update0 value0 (rule0\<lparr>excludeMMSI := Some ''12345''\<rparr>)
   \<and> ruleMatches deltaAIS update0 value0 rule0"
proof -
  have t: "trim ''999, 12345'' \<noteq> []" "trim '' '' = []"
    and s: "map trim (split ''999, 12345'' CHR '','') = [''999'', ''12345'']"
    by (simp_all add: trim_def isWhiteSpace_def)
  have c: "delta_context deltaAIS = Some ''vessels.urn:mrn:imo:mmsi:12345''"
    by (simp add: deltaAIS_def)
  have ex: "\<exists>m \<in> set (map trim (split ''999, 12345'' CHR '','')).
              \<exists>a b. ''vessels.urn:mrn:imo:mmsi:12345'' = a @ m @ b"
  proof -
    have "''vessels.urn:mrn:imo:mmsi:12345'' = ''vessels.urn:mrn:imo:mmsi:'' @ ''12345'' @ []"
      by simp
    then show ?thesis unfolding s by (metis list.set_intros(1,2))
  qed
  note w1 = C6_exclusion [where r = "rule0\<lparr>excludeMMSI := Some ''999, 12345''\<rparr>"
      and e = "''999, 12345''" and d = deltaAIS and c = "''vessels.urn:mrn:imo:mmsi:12345''"
      and u = update0 and vu = value0 and m = "''12345''"
      and a = "''vessels.urn:mrn:imo:mmsi:''" and b = "[]"]
  note w2 = C6_exclusion [where r = "rule0\<lparr>excludeMMSI := Some '' ''\<rparr>"
      and e = "'' ''" and d = deltaAIS and c = "''vessels.urn:mrn:imo:mmsi:12345''"
      and u = update0 and vu = value0 and m = "[]" and a = "[]" and b = "[]"]
  note w3 = C6_exclusion [where r = "rule0\<lparr>excludeMMSI := Some ''12345''\<rparr>"
      and e = "''12345''" and d = deltaAIS and c = "''vessels.urn:mrn:imo:mmsi:12345''"
      and u = update0 and vu = value0 and m = "''12345''"
      and a = "''vessels.urn:mrn:imo:mmsi:''" and b = "[]"]
  have m: "ruleMatches deltaAIS update0 value0 rule0"
    by (simp add: rule0_def deltaAIS_def update0_def value0_def ruleMatches_def pathMatch_def
      sourceMatch_def contextHasExcludedMMSI_def endsWith_def slice_0_m1_def)
  have a1: "contextHasExcludedMMSI (rule0\<lparr>excludeMMSI := Some ''999, 12345''\<rparr>) deltaAIS"
    using w1 t c ex by simp
  have a2: "\<not> ruleMatches deltaAIS update0 value0 (rule0\<lparr>excludeMMSI := Some ''999, 12345''\<rparr>)"
    using w1 t c a1 by simp
  have a3: "\<not> contextHasExcludedMMSI (rule0\<lparr>excludeMMSI := Some '' ''\<rparr>) deltaAIS"
    using w2 t by simp
  have a4: "\<not> ruleMatches deltaAIS update0 value0 (rule0\<lparr>excludeMMSI := Some ''12345''\<rparr>)"
    using w3 c by simp
  show ?thesis
    using t s c m a1 a2 a3 a4 by simp
qed

section \<open>Match engine: first match wins\<close>

lemma find_first_index:
  assumes "i < length rs" "P (rs ! i)" "\<forall>j<i. \<not> P (rs ! j)"
  shows "find P rs = Some (rs ! i)"
  using assms by (auto simp: find_Some_iff)

lemma find_Some_index:
  assumes "\<exists>r\<in>set rs. P r"
  shows "\<exists>i<length rs. find P rs = Some (rs ! i) \<and> P (rs ! i) \<and> (\<forall>j<i. \<not> P (rs ! j))"
proof -
  from assms have "find P rs \<noteq> None" by (auto simp: find_None_iff)
  then obtain r where "find P rs = Some r" by auto
  then show ?thesis by (auto simp: find_Some_iff)
qed

lemma checkValueChange_currentConfig:
  "currentConfig (fst (checkValueChange st c p v)) = currentConfig st"
  by (simp add: checkValueChange_def Let_def)

lemma publishToMQTT_settings:
  assumes "snd (publishToMQTT st d u vu r) = Some m"
  shows "topic m = buildTopic (currentConfig st) r (or_else (delta_context d) ''vessels.self'')
                     (value_path vu)
         \<and> payload m = buildPayload r d (value vu)
         \<and> pub_qos m = qos r \<and> pub_retain m = retain r"
proof (cases "sendOnChange r = Some True")
  case True
  obtain st' res where c: "checkValueChange st (or_else (delta_context d) ''vessels.self'')
      (value_path vu) (value vu) = (st', res)"
    by (cases "checkValueChange st (or_else (delta_context d) ''vessels.self'')
      (value_path vu) (value vu)") auto
  have cfg: "currentConfig st' = currentConfig st"
    using checkValueChange_currentConfig [of st "or_else (delta_context d) ''vessels.self''"
        "value_path vu" "value vu"] c by simp
  from assms True c cfg show ?thesis
    by (auto simp: publishToMQTT_def Let_def split: if_splits)
next
  case False
  with assms show ?thesis
    by (auto simp: publishToMQTT_def Let_def)
qed

lemma handleValue_Some:
  assumes "find (ruleMatches d u vu) rs = Some r"
  shows "handleValue rs d u (st, out) vu =
           (fst (publishToMQTT st d u vu r),
            out @ (case snd (publishToMQTT st d u vu r) of None \<Rightarrow> [] | Some m \<Rightarrow> [m]))"
  using assms by (simp add: handleValue_def split: prod.splits option.splits)

lemma handleValue_None:
  assumes "find (ruleMatches d u vu) rs = None"
  shows "handleValue rs d u acc vu = acc"
  using assms by (simp add: handleValue_def)

lemma handleValue_length:
  "length (snd (handleValue rs d u acc vu)) \<le> Suc (length (snd acc))"
  by (simp add: handleValue_def split: prod.splits option.splits)

text \<open>
  C1. The match engine takes the context rules in their stored order and selects the
  first one that passes all checks: the rule at index \<open>i\<close> when it passes and no rule
  before it does. The dispatch of that value is the dispatch of that rule alone, and
  the message carries that rule's topic, payload format, QoS and retain flag. When no
  rule passes, nothing happens. Whenever some rule passes, the selected rule is the one
  with no passing rule before it, so of two rules that both pass the earlier is taken;
  a value never leads to more than one message.
\<close>

theorem C1_first_match_wins:
  "(i < length rs \<and> ruleMatches d u vu (rs ! i) \<and> (\<forall>j<i. \<not> ruleMatches d u vu (rs ! j)) \<longrightarrow>
      find (ruleMatches d u vu) rs = Some (rs ! i)
      \<and> handleValue rs d u (st, out) vu =
          (fst (publishToMQTT st d u vu (rs ! i)),
           out @ (case snd (publishToMQTT st d u vu (rs ! i)) of None \<Rightarrow> [] | Some m \<Rightarrow> [m]))
      \<and> (\<forall>m. snd (publishToMQTT st d u vu (rs ! i)) = Some m \<longrightarrow>
            topic m = buildTopic (currentConfig st) (rs ! i)
                        (or_else (delta_context d) ''vessels.self'') (value_path vu)
            \<and> payload m = buildPayload (rs ! i) d (value vu)
            \<and> pub_qos m = qos (rs ! i) \<and> pub_retain m = retain (rs ! i)))
   \<and> ((\<forall>r\<in>set rs. \<not> ruleMatches d u vu r) \<longrightarrow> handleValue rs d u (st, out) vu = (st, out))
   \<and> ((\<exists>r\<in>set rs. ruleMatches d u vu r) \<longrightarrow>
        (\<exists>k<length rs. find (ruleMatches d u vu) rs = Some (rs ! k)
            \<and> ruleMatches d u vu (rs ! k) \<and> (\<forall>j<k. \<not> ruleMatches d u vu (rs ! j))))
   \<and> length (snd (handleValue rs d u (st, out) vu)) \<le> Suc (length out)"
proof (intro conjI impI)
  assume h: "i < length rs \<and> ruleMatches d u vu (rs ! i) \<and> (\<forall>j<i. \<not> ruleMatches d u vu (rs ! j))"
  then show f: "find (ruleMatches d u vu) rs = Some (rs ! i)"
    using find_first_index [of i rs "ruleMatches d u vu"] by blast
  show "handleValue rs d u (st, out) vu =
          (fst (publishToMQTT st d u vu (rs ! i)),
           out @ (case snd (publishToMQTT st d u vu (rs ! i)) of None \<Rightarrow> [] | Some m \<Rightarrow> [m]))"
    using f by (rule handleValue_Some)
  show "\<forall>m. snd (publishToMQTT st d u vu (rs ! i)) = Some m \<longrightarrow>
            topic m = buildTopic (currentConfig st) (rs ! i)
                        (or_else (delta_context d) ''vessels.self'') (value_path vu)
            \<and> payload m = buildPayload (rs ! i) d (value vu)
            \<and> pub_qos m = qos (rs ! i) \<and> pub_retain m = retain (rs ! i)"
    using publishToMQTT_settings by blast
next
  assume "\<forall>r\<in>set rs. \<not> ruleMatches d u vu r"
  then have "find (ruleMatches d u vu) rs = None"
    by (simp add: find_None_iff)
  then show "handleValue rs d u (st, out) vu = (st, out)"
    by (rule handleValue_None)
next
  assume "\<exists>r\<in>set rs. ruleMatches d u vu r"
  then show "\<exists>k<length rs. find (ruleMatches d u vu) rs = Some (rs ! k)
            \<and> ruleMatches d u vu (rs ! k) \<and> (\<forall>j<k. \<not> ruleMatches d u vu (rs ! j))"
    by (rule find_Some_index)
next
  show "length (snd (handleValue rs d u (st, out) vu)) \<le> Suc (length out)"
    using handleValue_length [of rs d u "(st, out)" vu] by simp
qed

text \<open>The definitions that evaluate the model at concrete data.\<close>

lemmas eval_defs =
  rule0_def ruleAll_def delta0_def update0_def value0_def state0_def config0_def
  ruleMatches_def pathMatch_def sourceMatch_def contextHasExcludedMMSI_def
  endsWith_def slice_0_m1_def trim_def isWhiteSpace_def
  publishToMQTT_def checkValueChange_def Map_get_def valueKey_def serialize_def
  buildTopic_def buildPayload_def replace_def replace_dots_def
  Number_toString_def dec_nat.simps digit_char_def Let_def

text \<open>
  Two enabled rules that both match the same value: the earlier one is selected and the
  one message carries its settings. With the first rule disabled the second is selected
  and the message carries the second rule's template, payload format, QoS and retain
  flag. With no matching rule nothing is sent.
\<close>

theorem C1_first_match_wins_witness:
  "ruleMatches delta0 update0 value0 rule0
   \<and> ruleMatches delta0 update0 value0 ruleAll
   \<and> find (ruleMatches delta0 update0 value0) [rule0, ruleAll] = Some rule0
   \<and> snd (handleValue [rule0, ruleAll] delta0 update0 (state0, []) value0) =
       [\<lparr>topic = ''vessels/self/navigation/position'', payload = JSON_stringify_delta delta0,
         pub_qos = 0, pub_retain = False\<rparr>]
   \<and> \<not> ruleMatches delta0 update0 value0 (rule0\<lparr>enabled := False\<rparr>)
   \<and> snd (handleValue [rule0\<lparr>enabled := False\<rparr>, ruleAll] delta0 update0 (state0, []) value0) =
       [\<lparr>topic = ''m/vessels/self/navigation/position'', payload = Text ''42'',
         pub_qos = 1, pub_retain = True\<rparr>]
   \<and> handleValue [rule0\<lparr>enabled := False\<rparr>] delta0 update0 (state0, []) value0 = (state0, [])"
proof -
  have m0: "ruleMatches delta0 update0 value0 rule0"
    and m1: "ruleMatches delta0 update0 value0 ruleAll"
    and m2: "\<not> ruleMatches delta0 update0 value0 (rule0\<lparr>enabled := False\<rparr>)"
    by (simp_all add: eval_defs)
  have p0: "snd (publishToMQTT state0 delta0 update0 value0 rule0) =
      Some \<lparr>topic = ''vessels/self/navigation/position'', payload = JSON_stringify_delta delta0,
         pub_qos = 0, pub_retain = False\<rparr>"
    by (simp add: eval_defs)
  have p1: "snd (publishToMQTT state0 delta0 update0 value0 ruleAll) =
      Some \<lparr>topic = ''m/vessels/self/navigation/position'', payload = Text ''42'',
         pub_qos = 1, pub_retain = True\<rparr>"
    by (simp add: eval_defs)
  note a = C1_first_match_wins [of 0 "[rule0, ruleAll]" delta0 update0 value0 state0 "[]"]
  note b = C1_first_match_wins [of 1 "[rule0\<lparr>enabled := False\<rparr>, ruleAll]" delta0 update0 value0
      state0 "[]"]
  note c = C1_first_match_wins [of 0 "[rule0\<lparr>enabled := False\<rparr>]" delta0 update0 value0
      state0 "[]"]
  have a1: "find (ruleMatches delta0 update0 value0) [rule0, ruleAll] = Some rule0"
    using a m0 by simp
  have a2: "snd (handleValue [rule0, ruleAll] delta0 update0 (state0, []) value0) =
       [\<lparr>topic = ''vessels/self/navigation/position'', payload = JSON_stringify_delta delta0,
         pub_qos = 0, pub_retain = False\<rparr>]"
    using a m0 p0 by simp
  have b1: "snd (handleValue [rule0\<lparr>enabled := False\<rparr>, ruleAll] delta0 update0 (state0, []) value0) =
       [\<lparr>topic = ''m/vessels/self/navigation/position'', payload = Text ''42'',
         pub_qos = 1, pub_retain = True\<rparr>]"
    using b m1 m2 p1 by simp
  have c1: "handleValue [rule0\<lparr>enabled := False\<rparr>] delta0 update0 (state0, []) value0 = (state0, [])"
    using c m2 by simp
  show ?thesis
    using m0 m1 m2 a1 a2 b1 c1 by simp
qed

text \<open>A whole delta leads to at most one message for each value it carries.\<close>

lemma foldl_handleValue_length:
  "length (snd (foldl (handleValue rs d u) acc vs)) \<le> length (snd acc) + length vs"
proof (induction vs arbitrary: acc)
  case Nil
  then show ?case by simp
next
  case (Cons v vs)
  have "length (snd (foldl (handleValue rs d u) (handleValue rs d u acc v) vs))
          \<le> length (snd (handleValue rs d u acc v)) + length vs"
    by (rule Cons.IH)
  also have "\<dots> \<le> Suc (length (snd acc)) + length vs"
    using handleValue_length [of rs d u acc v] by simp
  finally show ?case by simp
qed

lemma handleUpdate_length:
  "length (snd (handleUpdate rs d acc u)) \<le> length (snd acc) + value_count u"
  using foldl_handleValue_length
  by (simp add: handleUpdate_def value_count_def split: option.splits)

lemma foldl_handleUpdate_length:
  "length (snd (foldl (handleUpdate rs d) acc us))
     \<le> length (snd acc) + sum_list (map value_count us)"
proof (induction us arbitrary: acc)
  case Nil
  then show ?case by simp
next
  case (Cons u us)
  have "length (snd (foldl (handleUpdate rs d) (handleUpdate rs d acc u) us))
          \<le> length (snd (handleUpdate rs d acc u)) + sum_list (map value_count us)"
    by (rule Cons.IH)
  also have "\<dots> \<le> (length (snd acc) + value_count u) + sum_list (map value_count us)"
    using handleUpdate_length [of rs d acc u] by simp
  finally show ?case by simp
qed

lemma handleSignalKData_one_message_per_value:
  "length (snd (handleSignalKData st d rs))
     \<le> (case updates d of None \<Rightarrow> 0 | Some us \<Rightarrow> sum_list (map value_count us))"
  using foldl_handleUpdate_length [of rs d "(st, [])"]
  by (simp add: handleSignalKData_def split: option.splits)

lemma handleSignalKData_disconnected:
  "mqttClient st \<noteq> Some True \<Longrightarrow> handleSignalKData st d rs = (st, [])"
  by (simp add: handleSignalKData_def split: option.splits)

section \<open>Change filter: what it reports\<close>

lemma checkValueChange_hasChanged:
  "hasChanged (snd (checkValueChange st c p v)) \<longleftrightarrow>
     Map_get (lastSentValues st) (valueKey c p) = JUndefined
     \<or> serialize v \<noteq> serialize (Map_get (lastSentValues st) (valueKey c p))"
  by (simp add: checkValueChange_def Let_def)

lemma checkValueChange_changed_state:
  "hasChanged (snd (checkValueChange st c p v)) \<Longrightarrow>
     fst (checkValueChange st c p v) = st\<lparr>lastSentValues := (lastSentValues st)(valueKey c p \<mapsto> v)\<rparr>"
  by (auto simp: checkValueChange_def Let_def)

lemma checkValueChange_unchanged_state:
  "\<not> hasChanged (snd (checkValueChange st c p v)) \<Longrightarrow> fst (checkValueChange st c p v) = st"
  by (simp add: checkValueChange_def Let_def split: if_splits)

lemma checkValueChange_first:
  assumes "lastSentValues st (valueKey c p) = None"
  shows "hasChanged (snd (checkValueChange st c p v))"
    and "lastSentValues (fst (checkValueChange st c p v)) (valueKey c p) = Some v"
  using assms by (simp_all add: checkValueChange_def Let_def Map_get_def)

lemma checkValueChange_repeat:
  assumes "v \<noteq> JUndefined"
  shows "\<not> hasChanged (snd (checkValueChange (fst (checkValueChange st c p v)) c p v))"
proof (cases "hasChanged (snd (checkValueChange st c p v))")
  case True
  then have "Map_get (lastSentValues (fst (checkValueChange st c p v))) (valueKey c p) = v"
    by (simp add: checkValueChange_changed_state Map_get_def)
  with assms show ?thesis
    by (simp add: checkValueChange_hasChanged)
next
  case False
  then show ?thesis
    by (simp add: checkValueChange_unchanged_state)
qed

lemma checkValueChange_differs:
  assumes "serialize v \<noteq> serialize (Map_get (lastSentValues st) (valueKey c p))"
  shows "hasChanged (snd (checkValueChange st c p v))"
    and "lastSentValues (fst (checkValueChange st c p v)) (valueKey c p) = Some v"
  using assms by (simp_all add: checkValueChange_def Let_def)

lemma digit_char_decimal:
  assumes "n < 10"
  shows "digit_char n \<in> set ''0123456789''"
proof -
  have "list_all (\<lambda>k. digit_char k \<in> set ''0123456789'') [0..<10]"
    by code_simp
  with assms show ?thesis
    by (simp add: list_all_iff)
qed

lemma last_dec_nat: "dec_nat k \<noteq> [] \<and> last (dec_nat k) = digit_char (k mod 10)"
  by (subst (1 2) dec_nat.simps) simp

lemma dec_nat_not_undefined: "dec_nat k \<noteq> ''undefined''"
proof
  assume "dec_nat k = ''undefined''"
  then have "last (dec_nat k) = CHR ''d''" by simp
  then have "digit_char (k mod 10) = CHR ''d''" by (simp add: last_dec_nat)
  moreover have "digit_char (k mod 10) \<in> set ''0123456789''"
    by (rule digit_char_decimal) simp
  ultimately show False by simp
qed

lemma serialize_undefined:
  "serialize v = ''undefined'' \<longleftrightarrow> v = JUndefined \<or> v = JStr ''undefined''"
proof (cases v)
  case (JNum n)
  then show ?thesis
    using dec_nat_not_undefined by (simp add: serialize_def Number_toString_def)
qed (simp_all add: serialize_def)

lemma checkValueChange_undefined:
  "hasChanged (snd (checkValueChange st c p JUndefined)) \<longleftrightarrow>
     Map_get (lastSentValues st) (valueKey c p) \<noteq> JStr ''undefined''"
  using serialize_undefined [of "Map_get (lastSentValues st) (valueKey c p)"]
  by (auto simp: checkValueChange_hasChanged serialize_def)

lemma publishToMQTT_filtered:
  assumes "sendOnChange r = Some True"
  shows "fst (publishToMQTT st d u vu r) =
           fst (checkValueChange st (or_else (delta_context d) ''vessels.self'')
                  (value_path vu) (value vu))"
    and "snd (publishToMQTT st d u vu r) \<noteq> None \<longleftrightarrow>
           hasChanged (snd (checkValueChange st (or_else (delta_context d) ''vessels.self'')
                  (value_path vu) (value vu)))"
  using assms by (simp_all add: publishToMQTT_def Let_def split: prod.splits)

lemma publishToMQTT_unfiltered:
  assumes "sendOnChange r \<noteq> Some True"
  shows "publishToMQTT st d u vu r =
           (st, Some \<lparr>topic = buildTopic (currentConfig st) r
                                (or_else (delta_context d) ''vessels.self'') (value_path vu),
                      payload = buildPayload r d (value vu),
                      pub_qos = qos r, pub_retain = retain r\<rparr>)"
  using assms by (simp add: publishToMQTT_def Let_def)

text \<open>
  C4, as the code has it. The change filter keeps its last values under the key string
  \<open>context:path\<close>. Under \<open>sendOnChange = true\<close>: when nothing is stored under the key,
  the filter returns true (the update is dispatched) and records the value; for every
  value other than \<open>undefined\<close>, an immediately repeated identical value returns false
  and leaves the state as it is, so two identical sends on a fresh key give exactly one
  dispatch; a value whose serialized form differs from that of the stored one returns
  true, is recorded and is dispatched. A rule with \<open>sendOnChange = false\<close> dispatches
  every update, and neither reads nor writes the last-value map.
\<close>

theorem C4_change_filter:
  "(lastSentValues st (valueKey c p) = None \<longrightarrow>
      hasChanged (snd (checkValueChange st c p v))
      \<and> lastSentValues (fst (checkValueChange st c p v)) (valueKey c p) = Some v)
   \<and> (v \<noteq> JUndefined \<longrightarrow>
      \<not> hasChanged (snd (checkValueChange (fst (checkValueChange st c p v)) c p v))
      \<and> fst (checkValueChange (fst (checkValueChange st c p v)) c p v)
          = fst (checkValueChange st c p v))
   \<and> (serialize v \<noteq> serialize (Map_get (lastSentValues st) (valueKey c p)) \<longrightarrow>
      hasChanged (snd (checkValueChange st c p v))
      \<and> lastSentValues (fst (checkValueChange st c p v)) (valueKey c p) = Some v)
   \<and> (sendOnChange r = Some True \<longrightarrow>
      fst (publishToMQTT st d u vu r)
        = fst (checkValueChange st (or_else (delta_context d) ''vessels.self'')
                 (value_path vu) (value vu))
      \<and> (snd (publishToMQTT st d u vu r) \<noteq> None \<longleftrightarrow>
           hasChanged (snd (checkValueChange st (or_else (delta_context d) ''vessels.self'')
                 (value_path vu) (value vu)))))
   \<and> (sendOnChange r = Some True \<and> value vu \<noteq> JUndefined
        \<and> lastSentValues st (valueKey (or_else (delta_context d) ''vessels.self'') (value_path vu))
            = None \<longrightarrow>
      snd (publishToMQTT st d u vu r) \<noteq> None
      \<and> snd (publishToMQTT (fst (publishToMQTT st d u vu r)) d u vu r) = None)
   \<and> (sendOnChange r = Some False \<longrightarrow>
      fst (publishToMQTT st d u vu r) = st
      \<and> snd (publishToMQTT st d u vu r) \<noteq> None
      \<and> (\<forall>m. snd (publishToMQTT (st\<lparr>lastSentValues := m\<rparr>) d u vu r)
               = snd (publishToMQTT st d u vu r)))"
proof (intro conjI impI allI)
  assume "lastSentValues st (valueKey c p) = None"
  then show "hasChanged (snd (checkValueChange st c p v))"
    and "lastSentValues (fst (checkValueChange st c p v)) (valueKey c p) = Some v"
    by (rule checkValueChange_first)+
next
  assume nu: "v \<noteq> JUndefined"
  then show r: "\<not> hasChanged (snd (checkValueChange (fst (checkValueChange st c p v)) c p v))"
    by (rule checkValueChange_repeat)
  then show "fst (checkValueChange (fst (checkValueChange st c p v)) c p v)
          = fst (checkValueChange st c p v)"
    by (rule checkValueChange_unchanged_state)
next
  assume "serialize v \<noteq> serialize (Map_get (lastSentValues st) (valueKey c p))"
  then show "hasChanged (snd (checkValueChange st c p v))"
    and "lastSentValues (fst (checkValueChange st c p v)) (valueKey c p) = Some v"
    by (rule checkValueChange_differs)+
next
  assume t: "sendOnChange r = Some True"
  then show "fst (publishToMQTT st d u vu r)
        = fst (checkValueChange st (or_else (delta_context d) ''vessels.self'')
                 (value_path vu) (value vu))"
    by (rule publishToMQTT_filtered)
  from t show "snd (publishToMQTT st d u vu r) \<noteq> None \<longleftrightarrow>
           hasChanged (snd (checkValueChange st (or_else (delta_context d) ''vessels.self'')
                 (value_path vu) (value vu)))"
    by (rule publishToMQTT_filtered)
next
  assume h: "sendOnChange r = Some True \<and> value vu \<noteq> JUndefined
        \<and> lastSentValues st (valueKey (or_else (delta_context d) ''vessels.self'') (value_path vu))
            = None"
  then show "snd (publishToMQTT st d u vu r) \<noteq> None"
    using publishToMQTT_filtered(2) checkValueChange_first(1) by blast
  have "\<not> hasChanged (snd (checkValueChange (fst (publishToMQTT st d u vu r))
           (or_else (delta_context d) ''vessels.self'') (value_path vu) (value vu)))"
    using h publishToMQTT_filtered(1) [of r st d u vu] checkValueChange_repeat by simp
  then show "snd (publishToMQTT (fst (publishToMQTT st d u vu r)) d u vu r) = None"
    using h publishToMQTT_filtered(2) by blast
next
  assume f: "sendOnChange r = Some False"
  then show "fst (publishToMQTT st d u vu r) = st"
    and "snd (publishToMQTT st d u vu r) \<noteq> None"
    by (simp_all add: publishToMQTT_unfiltered)
  fix m
  from f show "snd (publishToMQTT (st\<lparr>lastSentValues := m\<rparr>) d u vu r)
               = snd (publishToMQTT st d u vu r)"
    by (simp add: publishToMQTT_unfiltered)
qed

text \<open>
  C4 as stated fails for the value \<open>undefined\<close>: sent twice in a row on a fresh key
  under \<open>sendOnChange = true\<close>, it is dispatched twice. And the first observation of a
  (context, path) pair is suppressed when another pair with the same key string has
  stored the same value: \<open>vessels.urn:mrn\<close> with \<open>x\<close>, then \<open>vessels.urn\<close> with
  \<open>mrn:x\<close>.
\<close>

theorem C4_change_filter_counterexample:
  "sendOnChange rule0 = Some True
   \<and> snd (publishToMQTT state0 delta0 update0 valueU rule0) \<noteq> None
   \<and> snd (publishToMQTT (fst (publishToMQTT state0 delta0 update0 valueU rule0))
            delta0 update0 valueU rule0) \<noteq> None
   \<and> hasChanged (snd (checkValueChange
         (fst (checkValueChange state0 ''vessels.self'' ''navigation.position'' JUndefined))
         ''vessels.self'' ''navigation.position'' JUndefined))
   \<and> \<not> hasChanged (snd (checkValueChange
         (fst (checkValueChange state0 ''vessels.urn:mrn'' ''x'' (JNum 1)))
         ''vessels.urn'' ''mrn:x'' (JNum 1)))"
  by (simp add: valueU_def eval_defs)

text \<open>
  The change filter on a fresh key: the first send of 42 is dispatched, the repeated one
  is not, 43 is dispatched again; a rule with \<open>sendOnChange = false\<close> dispatches and
  leaves the state alone.
\<close>

theorem C4_change_filter_witness:
  "lastSentValues state0 (valueKey ''vessels.self'' ''navigation.position'') = None
   \<and> hasChanged (snd (checkValueChange state0 ''vessels.self'' ''navigation.position'' (JNum 42)))
   \<and> \<not> hasChanged (snd (checkValueChange
         (fst (checkValueChange state0 ''vessels.self'' ''navigation.position'' (JNum 42)))
         ''vessels.self'' ''navigation.position'' (JNum 42)))
   \<and> snd (publishToMQTT state0 delta0 update0 value0 rule0) \<noteq> None
   \<and> snd (publishToMQTT (fst (publishToMQTT state0 delta0 update0 value0 rule0))
            delta0 update0 value0 rule0) = None
   \<and> hasChanged (snd (checkValueChange
         (fst (checkValueChange state0 ''vessels.self'' ''navigation.position'' (JNum 42)))
         ''vessels.self'' ''navigation.position'' (JNum 43)))
   \<and> fst (publishToMQTT state0 delta0 update0 value0 ruleAll) = state0
   \<and> snd (publishToMQTT state0 delta0 update0 value0 ruleAll) \<noteq> None"
proof -
  have k: "lastSentValues state0 (valueKey ''vessels.self'' ''navigation.position'') = None"
    by (simp add: state0_def)
  have k': "lastSentValues state0
      (valueKey (or_else (delta_context delta0) ''vessels.self'') (value_path value0)) = None"
    by (simp add: state0_def)
  have s: "sendOnChange rule0 = Some True" "sendOnChange ruleAll = Some False"
    "value value0 \<noteq> JUndefined"
    by (simp_all add: rule0_def ruleAll_def value0_def)
  have ne: "serialize (JNum 43) \<noteq> serialize (Map_get (lastSentValues
      (fst (checkValueChange state0 ''vessels.self'' ''navigation.position'' (JNum 42))))
      (valueKey ''vessels.self'' ''navigation.position''))"
    by (simp add: eval_defs)
  note a = C4_change_filter [of state0 "''vessels.self''" "''navigation.position''" "JNum 42"
      rule0 delta0 update0 value0]
  note b = C4_change_filter [of
      "fst (checkValueChange state0 ''vessels.self'' ''navigation.position'' (JNum 42))"
      "''vessels.self''" "''navigation.position''" "JNum 43" ruleAll delta0 update0 value0]
  note c = C4_change_filter [of state0 "''vessels.self''" "''navigation.position''" "JNum 42"
      ruleAll delta0 update0 value0]
  have a1: "hasChanged (snd (checkValueChange state0 ''vessels.self'' ''navigation.position'' (JNum 42)))"
    using a k by simp
  have a2: "\<not> hasChanged (snd (checkValueChange
         (fst (checkValueChange state0 ''vessels.self'' ''navigation.position'' (JNum 42)))
         ''vessels.self'' ''navigation.position'' (JNum 42)))"
    using a by simp
  have a3: "snd (publishToMQTT state0 delta0 update0 value0 rule0) \<noteq> None"
    and a4: "snd (publishToMQTT (fst (publishToMQTT state0 delta0 update0 value0 rule0))
            delta0 update0 value0 rule0) = None"
    using a k' s by blast+
  have b1: "hasChanged (snd (checkValueChange
         (fst (checkValueChange state0 ''vessels.self'' ''navigation.position'' (JNum 42)))
         ''vessels.self'' ''navigation.position'' (JNum 43)))"
    using b ne by blast
  have c1: "fst (publishToMQTT state0 delta0 update0 value0 ruleAll) = state0"
    and c2: "snd (publishToMQTT state0 delta0 update0 value0 ruleAll) \<noteq> None"
    using c s by blast+
  show ?thesis
    using k a1 a2 a3 a4 b1 c1 c2 by simp
qed

section \<open>Change filter: the value \<open>undefined\<close>\<close>

text \<open>
  C9, as the code has it. For the value \<open>undefined\<close> the change filter reports a change
  unless the value stored for the key is the string \<open>"undefined"\<close>, whose serialized
  form is that of \<open>undefined\<close>. When it reports a change it stores \<open>undefined\<close>, which
  reads back like an absent entry, so the baseline is never established: the next
  \<open>undefined\<close> is reported as a change again. Under \<open>sendOnChange = true\<close>, then, two
  consecutive \<open>undefined\<close> values are both dispatched.
\<close>

theorem C9_undefined_always_changes:
  "(hasChanged (snd (checkValueChange st c p JUndefined)) \<longleftrightarrow>
      Map_get (lastSentValues st) (valueKey c p) \<noteq> JStr ''undefined'')
   \<and> (hasChanged (snd (checkValueChange st c p JUndefined)) \<longrightarrow>
      lastSentValues (fst (checkValueChange st c p JUndefined)) (valueKey c p) = Some JUndefined
      \<and> Map_get (lastSentValues (fst (checkValueChange st c p JUndefined))) (valueKey c p)
          = Map_get Map.empty (valueKey c p)
      \<and> hasChanged (snd (checkValueChange (fst (checkValueChange st c p JUndefined)) c p JUndefined)))
   \<and> (sendOnChange r = Some True \<and> value vu = JUndefined
        \<and> Map_get (lastSentValues st)
             (valueKey (or_else (delta_context d) ''vessels.self'') (value_path vu))
            \<noteq> JStr ''undefined'' \<longrightarrow>
      snd (publishToMQTT st d u vu r) \<noteq> None
      \<and> snd (publishToMQTT (fst (publishToMQTT st d u vu r)) d u vu r) \<noteq> None)"
proof (intro conjI impI)
  show "hasChanged (snd (checkValueChange st c p JUndefined)) \<longleftrightarrow>
      Map_get (lastSentValues st) (valueKey c p) \<noteq> JStr ''undefined''"
    by (rule checkValueChange_undefined)
next
  assume h: "hasChanged (snd (checkValueChange st c p JUndefined))"
  then have st': "fst (checkValueChange st c p JUndefined)
      = st\<lparr>lastSentValues := (lastSentValues st)(valueKey c p \<mapsto> JUndefined)\<rparr>"
    by (rule checkValueChange_changed_state)
  show "lastSentValues (fst (checkValueChange st c p JUndefined)) (valueKey c p) = Some JUndefined"
    by (simp add: st')
  show g: "Map_get (lastSentValues (fst (checkValueChange st c p JUndefined))) (valueKey c p)
          = Map_get Map.empty (valueKey c p)"
    by (simp add: st' Map_get_def)
  show "hasChanged (snd (checkValueChange (fst (checkValueChange st c p JUndefined)) c p JUndefined))"
    using g by (simp add: checkValueChange_undefined Map_get_def)
next
  let ?c = "or_else (delta_context d) ''vessels.self''"
  assume h: "sendOnChange r = Some True \<and> value vu = JUndefined
        \<and> Map_get (lastSentValues st) (valueKey ?c (value_path vu)) \<noteq> JStr ''undefined''"
  then have ch: "hasChanged (snd (checkValueChange st ?c (value_path vu) JUndefined))"
    by (simp add: checkValueChange_undefined)
  with h show "snd (publishToMQTT st d u vu r) \<noteq> None"
    using publishToMQTT_filtered(2) [of r st d u vu] by simp
  have st': "fst (publishToMQTT st d u vu r)
      = st\<lparr>lastSentValues := (lastSentValues st)(valueKey ?c (value_path vu) \<mapsto> JUndefined)\<rparr>"
    using h ch publishToMQTT_filtered(1) [of r st d u vu]
      checkValueChange_changed_state [of st ?c "value_path vu" JUndefined] by simp
  have "hasChanged (snd (checkValueChange (fst (publishToMQTT st d u vu r)) ?c
      (value_path vu) JUndefined))"
    by (simp add: st' checkValueChange_undefined Map_get_def)
  with h show "snd (publishToMQTT (fst (publishToMQTT st d u vu r)) d u vu r) \<noteq> None"
    using publishToMQTT_filtered(2) [of r "fst (publishToMQTT st d u vu r)" d u vu] by simp
qed

text \<open>
  C9 as stated fails after the string \<open>"undefined"\<close> has been sent for the key: the
  value \<open>undefined\<close> that follows is not reported as a change, and neither is the next,
  so two consecutive \<open>undefined\<close> values are both suppressed.
\<close>

theorem C9_undefined_always_changes_counterexample:
  "lastSentValues stateU (valueKey ''vessels.self'' ''navigation.position'') = Some (JStr ''undefined'')
   \<and> \<not> hasChanged (snd (checkValueChange stateU ''vessels.self'' ''navigation.position'' JUndefined))
   \<and> publishToMQTT stateU delta0 update0 valueU rule0 = (stateU, None)"
  by (simp add: stateU_def valueU_def eval_defs)

text \<open>
  On a fresh key two consecutive \<open>undefined\<close> values are both dispatched; the stored
  \<open>undefined\<close> reads back like an absent entry.
\<close>

theorem C9_undefined_always_changes_witness:
  "sendOnChange rule0 = Some True \<and> value valueU = JUndefined
   \<and> Map_get (lastSentValues state0) (valueKey ''vessels.self'' ''navigation.position'')
       \<noteq> JStr ''undefined''
   \<and> hasChanged (snd (checkValueChange state0 ''vessels.self'' ''navigation.position'' JUndefined))
   \<and> hasChanged (snd (checkValueChange
         (fst (checkValueChange state0 ''vessels.self'' ''navigation.position'' JUndefined))
         ''vessels.self'' ''navigation.position'' JUndefined))
   \<and> snd (publishToMQTT state0 delta0 update0 valueU rule0) \<noteq> None
   \<and> snd (publishToMQTT (fst (publishToMQTT state0 delta0 update0 valueU rule0))
            delta0 update0 valueU rule0) \<noteq> None"
proof -
  have s: "sendOnChange rule0 = Some True" "value valueU = JUndefined"
    by (simp_all add: rule0_def valueU_def)
  have k: "Map_get (lastSentValues state0) (valueKey ''vessels.self'' ''navigation.position'')
       \<noteq> JStr ''undefined''"
    by (simp add: state0_def Map_get_def)
  have k': "Map_get (lastSentValues state0)
      (valueKey (or_else (delta_context delta0) ''vessels.self'') (value_path valueU))
       \<noteq> JStr ''undefined''"
    by (simp add: state0_def Map_get_def)
  note a = C9_undefined_always_changes [of state0 "''vessels.self''" "''navigation.position''"
      rule0 valueU delta0 update0]
  have a1: "hasChanged (snd (checkValueChange state0 ''vessels.self'' ''navigation.position'' JUndefined))"
    using a k by blast
  have a2: "hasChanged (snd (checkValueChange
         (fst (checkValueChange state0 ''vessels.self'' ''navigation.position'' JUndefined))
         ''vessels.self'' ''navigation.position'' JUndefined))"
    using a a1 by blast
  have a3: "snd (publishToMQTT state0 delta0 update0 valueU rule0) \<noteq> None"
    and a4: "snd (publishToMQTT (fst (publishToMQTT state0 delta0 update0 valueU rule0))
            delta0 update0 valueU rule0) \<noteq> None"
    using a s k' by blast+
  show ?thesis
    using s k a1 a2 a3 a4 by simp
qed

section \<open>Change filter: an unset \<open>sendOnChange\<close>\<close>

lemma buildTopic_sendOnChange:
  "buildTopic cfg (r\<lparr>sendOnChange := x\<rparr>) c p = buildTopic cfg r c p"
  by (simp add: buildTopic_def)

lemma buildPayload_sendOnChange:
  "buildPayload (r\<lparr>sendOnChange := x\<rparr>) d v = buildPayload r d v"
  by (simp add: buildPayload_def)

text \<open>
  C10. A rule whose \<open>sendOnChange\<close> is absent is dispatched exactly as the same rule with
  \<open>sendOnChange = false\<close>: every update is published, a repeated one too, the state
  (and with it the last-value map) is left as it was, and the message does not depend
  on what the last-value map holds.
\<close>

theorem C10_unset_sendOnChange:
  "sendOnChange r = None \<longrightarrow>
     publishToMQTT st d u vu r = publishToMQTT st d u vu (r\<lparr>sendOnChange := Some False\<rparr>)
     \<and> fst (publishToMQTT st d u vu r) = st
     \<and> snd (publishToMQTT st d u vu r) \<noteq> None
     \<and> snd (publishToMQTT (fst (publishToMQTT st d u vu r)) d u vu r)
         = snd (publishToMQTT st d u vu r)
     \<and> (\<forall>m. snd (publishToMQTT (st\<lparr>lastSentValues := m\<rparr>) d u vu r)
              = snd (publishToMQTT st d u vu r))"
proof
  assume n: "sendOnChange r = None"
  then have u1: "sendOnChange r \<noteq> Some True" by simp
  have u2: "sendOnChange (r\<lparr>sendOnChange := Some False\<rparr>) \<noteq> Some True" by simp
  show "publishToMQTT st d u vu r = publishToMQTT st d u vu (r\<lparr>sendOnChange := Some False\<rparr>)
     \<and> fst (publishToMQTT st d u vu r) = st
     \<and> snd (publishToMQTT st d u vu r) \<noteq> None
     \<and> snd (publishToMQTT (fst (publishToMQTT st d u vu r)) d u vu r)
         = snd (publishToMQTT st d u vu r)
     \<and> (\<forall>m. snd (publishToMQTT (st\<lparr>lastSentValues := m\<rparr>) d u vu r)
              = snd (publishToMQTT st d u vu r))"
    by (simp add: publishToMQTT_unfiltered [OF u1] publishToMQTT_unfiltered [OF u2]
        buildTopic_sendOnChange buildPayload_sendOnChange)
qed

text \<open>
  A rule with no \<open>sendOnChange\<close> field publishes the same value twice, and leaves the
  last-value map empty.
\<close>

theorem C10_unset_sendOnChange_witness:
  "sendOnChange (rule0\<lparr>sendOnChange := None\<rparr>) = None
   \<and> publishToMQTT state0 delta0 update0 value0 (rule0\<lparr>sendOnChange := None\<rparr>)
       = publishToMQTT state0 delta0 update0 value0 (rule0\<lparr>sendOnChange := Some False\<rparr>)
   \<and> fst (publishToMQTT state0 delta0 update0 value0 (rule0\<lparr>sendOnChange := None\<rparr>)) = state0
   \<and> snd (publishToMQTT state0 delta0 update0 value0 (rule0\<lparr>sendOnChange := None\<rparr>))
       = Some \<lparr>topic = ''vessels/self/navigation/position'',
               payload = JSON_stringify_delta delta0, pub_qos = 0, pub_retain = False\<rparr>
   \<and> snd (publishToMQTT
           (fst (publishToMQTT state0 delta0 update0 value0 (rule0\<lparr>sendOnChange := None\<rparr>)))
           delta0 update0 value0 (rule0\<lparr>sendOnChange := None\<rparr>))
       = Some \<lparr>topic = ''vessels/self/navigation/position'',
               payload = JSON_stringify_delta delta0, pub_qos = 0, pub_retain = False\<rparr>"
proof -
  have n: "sendOnChange (rule0\<lparr>sendOnChange := None\<rparr>) = None" by simp
  have p: "snd (publishToMQTT state0 delta0 update0 value0 (rule0\<lparr>sendOnChange := None\<rparr>))
       = Some \<lparr>topic = ''vessels/self/navigation/position'',
               payload = JSON_stringify_delta delta0, pub_qos = 0, pub_retain = False\<rparr>"
    by (simp add: eval_defs)
  note a = C10_unset_sendOnChange [of "rule0\<lparr>sendOnChange := None\<rparr>" state0 delta0 update0 value0]
  have a1: "publishToMQTT state0 delta0 update0 value0 (rule0\<lparr>sendOnChange := None\<rparr>)
       = publishToMQTT state0 delta0 update0 value0 (rule0\<lparr>sendOnChange := Some False\<rparr>)"
    using a n by simp
  have a2: "fst (publishToMQTT state0 delta0 update0 value0 (rule0\<lparr>sendOnChange := None\<rparr>)) = state0"
    using a n by blast
  have a3: "snd (publishToMQTT
           (fst (publishToMQTT state0 delta0 update0 value0 (rule0\<lparr>sendOnChange := None\<rparr>)))
           delta0 update0 value0 (rule0\<lparr>sendOnChange := None\<rparr>))
       = snd (publishToMQTT state0 delta0 update0 value0 (rule0\<lparr>sendOnChange := None\<rparr>))"
    using a n by blast
  show ?thesis
    using n a1 a2 a3 p by simp
qed

section \<open>Topic rendering\<close>

lemma substitute_once_absent:
  "\<not> includes_str s token \<Longrightarrow> substitute_once token v s = s"
  by (induction s) (auto simp: startsWith_prefix)

lemma substitute_once_first:
  assumes "token \<noteq> []" "\<not> includes_str (a @ butlast token) token"
  shows "substitute_once token v (a @ token @ b) = a @ v @ b"
  using assms(2)
proof (induction a)
  case Nil
  from assms(1) obtain t ts where "token = t # ts" by (cases token) auto
  then show ?case by simp
next
  case (Cons x a)
  have n1: "\<not> prefix token ((x # a) @ butlast token)"
    using Cons.prems by (simp add: startsWith_prefix)
  have n2: "\<not> includes_str (a @ butlast token) token"
    using Cons.prems by simp
  have "\<not> prefix token ((x # a) @ token @ b)"
  proof
    assume p: "prefix token ((x # a) @ token @ b)"
    have eq: "(x # a) @ token @ b = ((x # a) @ butlast token) @ (last token # b)"
      using assms(1) by (metis append.assoc append_Cons append_Nil append_butlast_last_id)
    have "prefix token (((x # a) @ butlast token) @ (last token # b))"
      using p by (simp only: eq)
    moreover have "length token \<le> length ((x # a) @ butlast token)"
      using assms(1) by (cases token) auto
    ultimately have "prefix token ((x # a) @ butlast token)"
      by (metis prefix_length_prefix prefixI)
    with n1 show False by simp
  qed
  then show ?case
    using Cons.IH [OF n2] by simp
qed

lemma GetSubstitution_plain:
  "pattern_free v \<Longrightarrow> GetSubstitution m a b v = v"
  by (induction m a b v rule: GetSubstitution.induct) auto

lemma search_substitute_once:
  assumes "token \<noteq> []"
  shows "(case search s token of None \<Rightarrow> s | Some (a, b) \<Rightarrow> a @ v @ b)
           = substitute_once token v s"
proof (induction s)
  case Nil
  with assms show ?case by simp
next
  case (Cons c cs)
  then show ?case
    by (auto simp: startsWith_prefix split: option.splits)
qed

lemma replace_plain:
  assumes "pattern_free v" "token \<noteq> []"
  shows "replace s token v = substitute_once token v s"
proof -
  have "replace s token v = (case search s token of None \<Rightarrow> s | Some (a, b) \<Rightarrow> a @ v @ b)"
    using assms(1) by (simp add: replace_def GetSubstitution_plain split: option.splits)
  then show ?thesis
    using assms(2) by (simp add: search_substitute_once)
qed

lemma buildTopic_default:
  assumes "topicTemplate r = None \<or> topicTemplate r = Some []"
  shows "buildTopic cfg r c p = render (prefix_of cfg) None c p"
  using assms
  by (auto simp: buildTopic_def render_def prefix_of_def Let_def split: option.splits)

lemma buildTopic_plain:
  assumes "pattern_free c" "pattern_free p"
  shows "buildTopic cfg r c p = render (prefix_of cfg) (topicTemplate r) c p"
  using assms
  by (auto simp: buildTopic_def render_def prefix_of_def Let_def replace_plain
      split: option.splits)

lemma buildTopic_prefix:
  "buildTopic cfg r c p
     = (if prefix_of cfg = [] then [] else prefix_of cfg @ ''/'') @ buildTopic None r c p"
  by (auto simp: buildTopic_def prefix_of_def Let_def split: option.splits)

lemma replace_dots_no_dot: "CHR ''.'' \<notin> set (replace_dots s)"
  by (auto simp: replace_dots_def)

lemma buildTopic_no_dot: "CHR ''.'' \<notin> set (buildTopic None r c p)"
  by (simp add: buildTopic_def replace_dots_no_dot split: option.splits)

text \<open>
  C8, as the code has it. The prefix, when it is not empty, is prepended as it stands,
  followed by a slash, whatever the rule, the context and the path are; what follows
  it holds no dot. With no template (absent or empty) that is \<open>context/path\<close> with every
  dot replaced by a slash. With a template, for a context and a path that hold none of
  the replacement patterns \<open>$$\<close>, \<open>$&\<close>, dollar-backtick and dollar-apostrophe, the
  first occurrence of \<open>{context}\<close> is replaced by the context, then the first
  occurrence of \<open>{path}\<close> in the result by the path (each once, not globally), then
  every dot by a slash. Context \<open>vessels.self\<close> and path \<open>navigation.position\<close> give
  \<open>vessels/self/navigation/position\<close> with the empty prefix,
  \<open>marine/vessels/self/navigation/position\<close> with the prefix \<open>marine\<close>, and
  \<open>m/vessels/self/navigation/position\<close> with the template \<open>m/{context}/{path}\<close>.
\<close>

theorem C8_topic_rendering:
  "buildTopic cfg r c p
     = (if prefix_of cfg = [] then [] else prefix_of cfg @ ''/'') @ buildTopic None r c p
   \<and> CHR ''.'' \<notin> set (buildTopic None r c p)
   \<and> (topicTemplate r = None \<or> topicTemplate r = Some [] \<longrightarrow>
      buildTopic cfg r c p
        = (if prefix_of cfg = [] then [] else prefix_of cfg @ ''/'')
          @ replace_dots c @ ''/'' @ replace_dots p)
   \<and> (pattern_free c \<and> pattern_free p \<longrightarrow>
      buildTopic cfg r c p = render (prefix_of cfg) (topicTemplate r) c p)
   \<and> buildTopic (Some (cf\<lparr>topicPrefix := []\<rparr>)) (r\<lparr>topicTemplate := None\<rparr>)
        ''vessels.self'' ''navigation.position'' = ''vessels/self/navigation/position''
   \<and> buildTopic (Some (cf\<lparr>topicPrefix := ''marine''\<rparr>)) (r\<lparr>topicTemplate := None\<rparr>)
        ''vessels.self'' ''navigation.position'' = ''marine/vessels/self/navigation/position''
   \<and> buildTopic (Some (cf\<lparr>topicPrefix := []\<rparr>)) (r\<lparr>topicTemplate := Some ''m/{context}/{path}''\<rparr>)
        ''vessels.self'' ''navigation.position'' = ''m/vessels/self/navigation/position''"
proof (intro conjI impI)
  show "buildTopic cfg r c p
     = (if prefix_of cfg = [] then [] else prefix_of cfg @ ''/'') @ buildTopic None r c p"
    by (rule buildTopic_prefix)
  show "CHR ''.'' \<notin> set (buildTopic None r c p)"
    by (rule buildTopic_no_dot)
next
  assume "topicTemplate r = None \<or> topicTemplate r = Some []"
  then show "buildTopic cfg r c p
        = (if prefix_of cfg = [] then [] else prefix_of cfg @ ''/'')
          @ replace_dots c @ ''/'' @ replace_dots p"
    by (simp add: buildTopic_default render_def replace_dots_def)
next
  assume "pattern_free c \<and> pattern_free p"
  then show "buildTopic cfg r c p = render (prefix_of cfg) (topicTemplate r) c p"
    by (simp add: buildTopic_plain)
next
  show "buildTopic (Some (cf\<lparr>topicPrefix := []\<rparr>)) (r\<lparr>topicTemplate := None\<rparr>)
        ''vessels.self'' ''navigation.position'' = ''vessels/self/navigation/position''"
    by (simp add: buildTopic_def replace_dots_def)
  show "buildTopic (Some (cf\<lparr>topicPrefix := ''marine''\<rparr>)) (r\<lparr>topicTemplate := None\<rparr>)
        ''vessels.self'' ''navigation.position'' = ''marine/vessels/self/navigation/position''"
    by (simp add: buildTopic_def replace_dots_def)
  show "buildTopic (Some (cf\<lparr>topicPrefix := []\<rparr>)) (r\<lparr>topicTemplate := Some ''m/{context}/{path}''\<rparr>)
        ''vessels.self'' ''navigation.position'' = ''m/vessels/self/navigation/position''"
    by (simp add: buildTopic_def replace_dots_def replace_def)
qed

text \<open>
  C8 as stated fails in two places. A dot in the prefix is not replaced: the prefix
  \<open>my.boat\<close> stays as it is in the topic. And the substitution is the one of
  \<open>String.prototype.replace\<close>, which expands dollar patterns in the value: the context
  \<open>a$&b\<close> puts the token itself back between \<open>a\<close> and \<open>b\<close>, where literal
  substitution gives \<open>m/a$&b/p\<close>.
\<close>

theorem C8_topic_rendering_counterexample:
  "buildTopic (Some (config0\<lparr>topicPrefix := ''my.boat''\<rparr>)) rule0
       ''vessels.self'' ''navigation.position''
     = ''my.boat/vessels/self/navigation/position''
   \<and> topicTemplate ruleAll = Some ''m/{context}/{path}''
   \<and> buildTopic (Some config0) ruleAll ''a$&b'' ''p'' = ''m/a{context}b/p''
   \<and> render [] (Some ''m/{context}/{path}'') ''a$&b'' ''p'' = ''m/a$&b/p''"
  by (simp add: eval_defs render_def)

text \<open>
  Topic rendering at concrete inputs: a template in which each token occurs twice has
  only the first occurrence of each replaced; a context and a path with dollar signs
  that start no replacement pattern are substituted as they stand; a rule with an empty
  template gets the default scheme; and the prefix \<open>my.boat\<close> stands in front of a
  templated topic unchanged, also where the context holds a replacement pattern.
\<close>

theorem C8_topic_rendering_witness:
  "pattern_free ''vessels.self'' \<and> pattern_free ''navigation.position''
   \<and> buildTopic (Some (config0\<lparr>topicPrefix := ''marine''\<rparr>))
        (rule0\<lparr>topicTemplate := Some ''{context}/{path}/{context}/{path}''\<rparr>)
        ''vessels.self'' ''navigation.position''
       = ''marine/vessels/self/navigation/position/{context}/{path}''
   \<and> pattern_free ''a$1b$'' \<and> pattern_free ''p$0''
   \<and> buildTopic (Some config0) ruleAll ''a$1b$'' ''p$0'' = ''m/a$1b$/p$0''
   \<and> topicTemplate (rule0\<lparr>topicTemplate := Some []\<rparr>) = Some []
   \<and> buildTopic None (rule0\<lparr>topicTemplate := Some []\<rparr>) ''vessels.self'' ''navigation.position''
       = ''vessels/self/navigation/position''
   \<and> buildTopic (Some (config0\<lparr>topicPrefix := ''my.boat''\<rparr>)) ruleAll ''a$&b'' ''p''
       = ''my.boat/m/a{context}b/p''"
proof -
  have d: "pattern_free ''vessels.self''" "pattern_free ''navigation.position''"
    "pattern_free ''a$1b$''" "pattern_free ''p$0''"
    by simp_all
  have e: "render (prefix_of (Some (config0\<lparr>topicPrefix := ''marine''\<rparr>)))
      (topicTemplate (rule0\<lparr>topicTemplate := Some ''{context}/{path}/{context}/{path}''\<rparr>))
      ''vessels.self'' ''navigation.position''
       = ''marine/vessels/self/navigation/position/{context}/{path}''"
    by (simp add: render_def prefix_of_def replace_dots_def)
  have e': "render (prefix_of (Some config0)) (topicTemplate ruleAll) ''a$1b$'' ''p$0''
       = ''m/a$1b$/p$0''"
    by (simp add: render_def prefix_of_def replace_dots_def config0_def ruleAll_def)
  have f: "prefix_of None = []" "replace_dots ''vessels.self'' = ''vessels/self''"
    "replace_dots ''navigation.position'' = ''navigation/position''"
    "prefix_of (Some (config0\<lparr>topicPrefix := ''my.boat''\<rparr>)) = ''my.boat''"
    by (simp_all add: prefix_of_def replace_dots_def)
  have g: "buildTopic None ruleAll ''a$&b'' ''p'' = ''m/a{context}b/p''"
    by (simp add: eval_defs)
  note plain = conjunct2 [THEN conjunct2, THEN conjunct2, THEN conjunct1]
  note default = conjunct2 [THEN conjunct2, THEN conjunct1]
  note a = C8_topic_rendering [of
      "Some (config0\<lparr>topicPrefix := ''marine''\<rparr>)"
      "rule0\<lparr>topicTemplate := Some ''{context}/{path}/{context}/{path}''\<rparr>"
      "''vessels.self''" "''navigation.position''" config0, THEN plain]
  note a' = C8_topic_rendering [of "Some config0" ruleAll "''a$1b$''" "''p$0''" config0,
      THEN plain]
  note b = C8_topic_rendering [of None "rule0\<lparr>topicTemplate := Some []\<rparr>"
      "''vessels.self''" "''navigation.position''" config0, THEN default]
  note c = C8_topic_rendering [of "Some (config0\<lparr>topicPrefix := ''my.boat''\<rparr>)" ruleAll
      "''a$&b''" "''p''" config0, THEN conjunct1]
  have a1: "buildTopic (Some (config0\<lparr>topicPrefix := ''marine''\<rparr>))
        (rule0\<lparr>topicTemplate := Some ''{context}/{path}/{context}/{path}''\<rparr>)
        ''vessels.self'' ''navigation.position''
       = ''marine/vessels/self/navigation/position/{context}/{path}''"
    using a d e by simp
  have a2: "buildTopic (Some config0) ruleAll ''a$1b$'' ''p$0'' = ''m/a$1b$/p$0''"
    using a' d e' by simp
  have b0: "topicTemplate (rule0\<lparr>topicTemplate := Some []\<rparr>) = Some []" by simp
  have b1: "buildTopic None (rule0\<lparr>topicTemplate := Some []\<rparr>) ''vessels.self'' ''navigation.position''
       = ''vessels/self/navigation/position''"
    using b b0 f by simp
  have c1: "buildTopic (Some (config0\<lparr>topicPrefix := ''my.boat''\<rparr>)) ruleAll ''a$&b'' ''p''
       = ''my.boat/m/a{context}b/p''"
    using c f g by simp
  show ?thesis
    using d a1 a2 b0 b1 c1 by simp
qed

section \<open>Subscription planner: the plan\<close>

text \<open>The keys of a list in the order of their first appearance.\<close>

lemma firsts_snoc:
  "rev (remdups (rev (zs @ [z])))
     = (if z \<in> set zs then rev (remdups (rev zs)) else rev (remdups (rev zs)) @ [z])"
  by simp

lemma Map_has_keys: "Map_has m k \<longleftrightarrow> k \<in> fst ` set m"
  by (induction m) auto

lemma Map_set_new: "k \<notin> fst ` set m \<Longrightarrow> Map_set m k v = m @ [(k, v)]"
  by (induction m) auto

lemma Map_push_last: "k \<notin> fst ` set m \<Longrightarrow> Map_push (m @ [(k, xs)]) k x = m @ [(k, xs @ [x])]"
  by (induction m) auto

lemma Map_push_tabulated:
  "distinct cs \<Longrightarrow>
     Map_push (map (\<lambda>c. (c, F c)) cs) k x = map (\<lambda>c. (c, if c = k then F c @ [x] else F c)) cs"
  by (induction cs) auto

lemma group_push_tabulated:
  fixes xs :: "ExportRule list"
  defines "cs \<equiv> rev (remdups (rev (map context_or_self xs)))"
  shows "group_push (map (\<lambda>c. (c, filter (\<lambda>r. context_or_self r = c) xs)) cs) x
           = map (\<lambda>c. (c, filter (\<lambda>r. context_or_self r = c) (xs @ [x])))
               (rev (remdups (rev (map context_or_self (xs @ [x])))))"
proof -
  let ?k = "context_or_self x"
  let ?F = "\<lambda>c. filter (\<lambda>r. context_or_self r = c) xs"
  let ?G = "map (\<lambda>c. (c, ?F c)) cs"
  have d: "distinct cs" and keys: "set cs = context_or_self ` set xs"
    by (simp_all add: cs_def)
  have fk: "fst ` set ?G = set cs" by force
  have has: "Map_has ?G ?k \<longleftrightarrow> ?k \<in> set cs"
    by (simp only: Map_has_keys fk)
  have cs': "rev (remdups (rev (map context_or_self (xs @ [x]))))
      = (if ?k \<in> set cs then cs else cs @ [?k])"
    by (simp add: cs_def)
  show ?thesis
  proof (cases "?k \<in> set cs")
    case True
    then have "group_push ?G x = Map_push ?G ?k x"
      by (simp add: group_push_def Let_def has)
    also have "\<dots> = map (\<lambda>c. (c, if c = ?k then ?F c @ [x] else ?F c)) cs"
      using d by (rule Map_push_tabulated)
    also have "\<dots> = map (\<lambda>c. (c, filter (\<lambda>r. context_or_self r = c) (xs @ [x]))) cs"
      by (rule map_cong) auto
    finally show ?thesis
      using True cs' by simp
  next
    case False
    then have nk: "?k \<notin> fst ` set ?G" using fk by simp
    have empty: "?F ?k = []"
    proof -
      have "context_or_self r \<noteq> ?k" if "r \<in> set xs" for r
        using that False keys by (metis imageI)
      then show ?thesis by (simp add: filter_empty_conv)
    qed
    have "group_push ?G x = Map_push (Map_set ?G ?k []) ?k x"
      using False by (simp add: group_push_def Let_def has)
    also have "\<dots> = Map_push (?G @ [(?k, [])]) ?k x"
      by (simp only: Map_set_new [OF nk])
    also have "\<dots> = ?G @ [(?k, [] @ [x])]"
      using nk by (rule Map_push_last)
    also have "\<dots> = map (\<lambda>c. (c, filter (\<lambda>r. context_or_self r = c) (xs @ [x]))) (cs @ [?k])"
      using False empty by auto
    finally show ?thesis
      using False cs' by simp
  qed
qed

lemma foldl_group_push:
  "foldl group_push [] xs
     = map (\<lambda>c. (c, filter (\<lambda>r. context_or_self r = c) xs))
         (rev (remdups (rev (map context_or_self xs))))"
proof (induction xs rule: rev_induct)
  case Nil
  then show ?case by simp
next
  case (snoc x xs)
  then show ?case
    using group_push_tabulated [of xs x] by simp
qed

lemma contextGroups_of_eq:
  "contextGroups_of rules
     = map (\<lambda>c. (c, filter (\<lambda>r. context_or_self r = c) (filter enabled rules)))
         (rev (remdups (rev (map context_or_self (filter enabled rules)))))"
  by (simp only: contextGroups_of_def foldl_group_push)

lemma contextGroups_of_distinct: "distinct (map fst (contextGroups_of rules))"
  by (simp add: contextGroups_of_eq comp_def)

lemma foldl_subscribe_group:
  assumes "distinct (map fst G)" "fst ` set G \<inter> fst ` set (activeSubscriptions s) = {}"
  shows "foldl subscribe_group s G
           = s\<lparr>unsubscribes := unsubscribes s @ map (\<lambda>g. (subscription_of (fst g) (snd g), snd g)) G,
               activeSubscriptions := activeSubscriptions s @ G\<rparr>"
  using assms
proof (induction G arbitrary: s)
  case Nil
  then show ?case by simp
next
  case (Cons g G)
  obtain c rs where g: "g = (c, rs)" by (cases g) auto
  have new: "c \<notin> fst ` set (activeSubscriptions s)"
    using Cons.prems(2) g by auto
  let ?s = "subscribe_group s g"
  have step: "?s = s\<lparr>unsubscribes := unsubscribes s @ [(subscription_of c rs, rs)],
                      activeSubscriptions := activeSubscriptions s @ [(c, rs)]\<rparr>"
    by (simp add: subscribe_group_def g Map_set_new [OF new])
  have d: "distinct (map fst G)" using Cons.prems(1) by simp
  have act: "fst ` set (activeSubscriptions ?s) = insert c (fst ` set (activeSubscriptions s))"
    by (simp add: step)
  have cG: "c \<notin> fst ` set G"
    using Cons.prems(1) g by auto
  have "fst ` set G \<inter> fst ` set (activeSubscriptions s) = {}"
    using Cons.prems(2) by auto
  with cG have disj: "fst ` set G \<inter> fst ` set (activeSubscriptions ?s) = {}"
    unfolding act by blast
  have "foldl subscribe_group s (g # G) = foldl subscribe_group ?s G" by simp
  also have "\<dots> = ?s\<lparr>unsubscribes := unsubscribes ?s @ map (\<lambda>g. (subscription_of (fst g) (snd g), snd g)) G,
               activeSubscriptions := activeSubscriptions ?s @ G\<rparr>"
    using d disj by (rule Cons.IH)
  finally show ?case
    unfolding step by (simp add: g)
qed

lemma updateSubscriptions_eq:
  "updateSubscriptions st
     = st\<lparr>unsubscribes := map (\<lambda>g. (subscription_of (fst g) (snd g), snd g))
                             (contextGroups_of (exportRules st)),
           activeSubscriptions := contextGroups_of (exportRules st)\<rparr>"
  using foldl_subscribe_group [of "contextGroups_of (exportRules st)"
      "st\<lparr>unsubscribes := [], activeSubscriptions := []\<rparr>"]
  by (simp add: updateSubscriptions_def contextGroups_of_distinct)

text \<open>
  C2, as the code has it. The planner discards the previous plan, groups the enabled
  rules by context (an empty context counts as \<open>vessels.self\<close>), the groups in the
  order in which their contexts first appear and the rules of a group in their stored
  order, and requests for each group one subscription with one item for each rule of
  the group, in rule order: that rule's path with that rule's period (1000 when the
  period is 0 or unset). Rules that share a path give one item each, each with its own period;
  paths are not merged and no minimum is taken. The rules of the group are the ones the
  subscription's updates are matched against, and the entry of the context in the
  active subscriptions.
\<close>

theorem C2_subscription_plan:
  "contextGroups_of (exportRules st)
     = map (\<lambda>c. (c, filter (\<lambda>r. context_or_self r = c) (filter enabled (exportRules st))))
         (rev (remdups (rev (map context_or_self (filter enabled (exportRules st))))))
   \<and> activeSubscriptions (updateSubscriptions st) = contextGroups_of (exportRules st)
   \<and> map snd (unsubscribes (updateSubscriptions st)) = map snd (contextGroups_of (exportRules st))
   \<and> map (\<lambda>s. (sub_context s, map (\<lambda>i. (item_path i, item_period i)) (subscribe s)))
         (map fst (unsubscribes (updateSubscriptions st)))
       = map (\<lambda>g. (fst g, map (\<lambda>r. (path r, case period r of
                                                None \<Rightarrow> 1000
                                              | Some n \<Rightarrow> if n \<noteq> 0 then n else 1000))
                             (snd g)))
           (contextGroups_of (exportRules st))
   \<and> exportRules (updateSubscriptions st) = exportRules st
   \<and> lastSentValues (updateSubscriptions st) = lastSentValues st"
proof (intro conjI)
  show "contextGroups_of (exportRules st)
     = map (\<lambda>c. (c, filter (\<lambda>r. context_or_self r = c) (filter enabled (exportRules st))))
         (rev (remdups (rev (map context_or_self (filter enabled (exportRules st))))))"
    by (rule contextGroups_of_eq)
  show "activeSubscriptions (updateSubscriptions st) = contextGroups_of (exportRules st)"
    by (simp add: updateSubscriptions_eq)
  show "map snd (unsubscribes (updateSubscriptions st)) = map snd (contextGroups_of (exportRules st))"
    by (simp add: updateSubscriptions_eq comp_def)
  show "map (\<lambda>s. (sub_context s, map (\<lambda>i. (item_path i, item_period i)) (subscribe s)))
         (map fst (unsubscribes (updateSubscriptions st)))
       = map (\<lambda>g. (fst g, map (\<lambda>r. (path r, case period r of
                                                None \<Rightarrow> 1000
                                              | Some n \<Rightarrow> if n \<noteq> 0 then n else 1000))
                             (snd g)))
           (contextGroups_of (exportRules st))"
    by (simp add: updateSubscriptions_eq comp_def subscription_of_def)
  show "exportRules (updateSubscriptions st) = exportRules st"
    by (simp add: updateSubscriptions_eq)
  show "lastSentValues (updateSubscriptions st) = lastSentValues st"
    by (simp add: updateSubscriptions_eq)
qed

text \<open>
  C2 as stated fails for two enabled rules of one context with the same path and the
  periods 1000 and 500: the request holds both items, each with its own period, and not
  the single item with the period 500.
\<close>

theorem C2_subscription_plan_counterexample:
  "map enabled [rule0, rule0\<lparr>rule_id := ''fast'', period := Some 500\<rparr>] = [True, True]
   \<and> map context_or_self [rule0, rule0\<lparr>rule_id := ''fast'', period := Some 500\<rparr>]
       = [''vessels.self'', ''vessels.self'']
   \<and> map path [rule0, rule0\<lparr>rule_id := ''fast'', period := Some 500\<rparr>]
       = [''navigation*'', ''navigation*'']
   \<and> map fst (unsubscribes (updateSubscriptions
         (state0\<lparr>exportRules := [rule0, rule0\<lparr>rule_id := ''fast'', period := Some 500\<rparr>]\<rparr>)))
       = [\<lparr>sub_context = ''vessels.self'',
           subscribe = [\<lparr>item_path = ''navigation*'', item_period = 1000\<rparr>,
                        \<lparr>item_path = ''navigation*'', item_period = 500\<rparr>]\<rparr>]"
  by (simp add: updateSubscriptions_def contextGroups_of_def group_push_def context_or_self_def
      subscribe_group_def subscription_of_def rule0_def state0_def Let_def)

text \<open>
  The plan for five rules: two contexts in the order of their first appearance, an empty
  context counted as \<open>vessels.self\<close>, the default period for the period 0 and for the
  unset period, and the disabled rule left out.
\<close>

theorem C2_subscription_plan_witness:
  "map (\<lambda>s. (sub_context s, map (\<lambda>i. (item_path i, item_period i)) (subscribe s)))
     (map fst (unsubscribes (updateSubscriptions
        (state0\<lparr>exportRules :=
           [rule0,
            rule0\<lparr>rule_context := ''vessels.*'', path := ''*'', period := Some 0\<rparr>,
            rule0\<lparr>rule_context := [], path := ''environment.wind*'', period := Some 250\<rparr>,
            rule0\<lparr>rule_context := ''vessels.*'', path := ''design*'', period := None\<rparr>,
            rule0\<lparr>enabled := False, path := ''electrical*''\<rparr>]\<rparr>))))
   = [(''vessels.self'', [(''navigation*'', 1000), (''environment.wind*'', 250)]),
      (''vessels.*'', [(''*'', 1000), (''design*'', 1000)])]"
proof -
  let ?st = "state0\<lparr>exportRules :=
           [rule0,
            rule0\<lparr>rule_context := ''vessels.*'', path := ''*'', period := Some 0\<rparr>,
            rule0\<lparr>rule_context := [], path := ''environment.wind*'', period := Some 250\<rparr>,
            rule0\<lparr>rule_context := ''vessels.*'', path := ''design*'', period := None\<rparr>,
            rule0\<lparr>enabled := False, path := ''electrical*''\<rparr>]\<rparr>"
  have g: "map (\<lambda>g. (fst g, map (\<lambda>r. (path r, case period r of
                                                None \<Rightarrow> 1000
                                              | Some n \<Rightarrow> if n \<noteq> 0 then n else 1000))
                             (snd g)))
           (contextGroups_of (exportRules ?st))
     = [(''vessels.self'', [(''navigation*'', 1000), (''environment.wind*'', 250)]),
        (''vessels.*'', [(''*'', 1000), (''design*'', 1000)])]"
    by (simp add: contextGroups_of_def group_push_def context_or_self_def rule0_def
        state0_def Let_def)
  show ?thesis
    using C2_subscription_plan [of ?st] g by simp
qed

section \<open>Rule update: a failed save\<close>

lemma post_rules_not_saved:
  assumes "outcome \<noteq> Saved"
  shows "fst (post_rules st (Some newRules) outcome)
           = st\<lparr>exportRules := newRules,
                currentConfig := map_option (\<lambda>c. c\<lparr>cfg_exportRules := newRules\<rparr>) (currentConfig st)\<rparr>"
  using assms by (cases outcome) (simp_all add: post_rules_def Let_def)

text \<open>
  C3, as the code has it. When persisting the configuration fails (the host calls back
  with an error, or throws), no rebuild occurs: the active subscriptions, the
  subscriptions held at the telemetry source with the rules they match against, the
  change filter's last values and the client are left as they were, and the failure is
  surfaced to the caller as status 500 with \<open>success = false\<close> and an error text. The
  stored rule list, though, has been assigned before the save is attempted and is not
  restored: it holds the requested rules, and so does the configuration object.
\<close>

theorem C3_save_failure:
  "unsubscribes (fst (post_rules st (Some newRules) (SaveError err))) = unsubscribes st
   \<and> activeSubscriptions (fst (post_rules st (Some newRules) (SaveError err))) = activeSubscriptions st
   \<and> lastSentValues (fst (post_rules st (Some newRules) (SaveError err))) = lastSentValues st
   \<and> mqttClient (fst (post_rules st (Some newRules) (SaveError err))) = mqttClient st
   \<and> snd (post_rules st (Some newRules) (SaveError err))
       = \<lparr>status = 500, success = False, message = None,
          error = Some ''Failed to save configuration''\<rparr>
   \<and> exportRules (fst (post_rules st (Some newRules) (SaveError err))) = newRules
   \<and> map_option cfg_exportRules (currentConfig (fst (post_rules st (Some newRules) (SaveError err))))
       = map_option (\<lambda>c. newRules) (currentConfig st)
   \<and> unsubscribes (fst (post_rules st (Some newRules) (SaveThrows msg))) = unsubscribes st
   \<and> activeSubscriptions (fst (post_rules st (Some newRules) (SaveThrows msg))) = activeSubscriptions st
   \<and> lastSentValues (fst (post_rules st (Some newRules) (SaveThrows msg))) = lastSentValues st
   \<and> snd (post_rules st (Some newRules) (SaveThrows msg))
       = \<lparr>status = 500, success = False, message = None, error = Some msg\<rparr>
   \<and> exportRules (fst (post_rules st (Some newRules) (SaveThrows msg))) = newRules"
  by (simp add: post_rules_not_saved post_rules_def Let_def option.map_comp comp_def)

text \<open>
  C3 as stated fails for the in-memory rule set: after a failed save the stored rule
  list is the requested one, while the active subscriptions still hold the previous
  rules.
\<close>

theorem C3_save_failure_counterexample:
  "exportRules stateRunning = [rule0, ruleAll]
   \<and> activeSubscriptions stateRunning = [(''vessels.self'', [rule0, ruleAll])]
   \<and> snd (post_rules stateRunning (Some [ruleAll]) (SaveError ''EACCES''))
       = \<lparr>status = 500, success = False, message = None,
          error = Some ''Failed to save configuration''\<rparr>
   \<and> exportRules (fst (post_rules stateRunning (Some [ruleAll]) (SaveError ''EACCES''))) = [ruleAll]
   \<and> activeSubscriptions (fst (post_rules stateRunning (Some [ruleAll]) (SaveError ''EACCES'')))
       = [(''vessels.self'', [rule0, ruleAll])]
   \<and> [ruleAll] \<noteq> [rule0, ruleAll]"
  by (simp add: stateRunning_def post_rules_def updateSubscriptions_def contextGroups_of_def
      group_push_def context_or_self_def subscribe_group_def subscription_of_def
      rule0_def ruleAll_def state0_def Let_def)

lemma post_rules_saved:
  "post_rules st (Some newRules) Saved
     = (updateSubscriptions
          (st\<lparr>exportRules := newRules,
              currentConfig := map_option (\<lambda>c. c\<lparr>cfg_exportRules := newRules\<rparr>) (currentConfig st)\<rparr>),
        \<lparr>status = 200, success = True, message = Some ''Export rules updated and saved'',
         error = None\<rparr>)"
  by (simp add: post_rules_def Let_def)

lemma post_rules_not_array:
  "post_rules st None outcome
     = (st, \<lparr>status = 400, success = False, message = None,
             error = Some ''Rules must be an array''\<rparr>)"
  by (simp add: post_rules_def)

end
